theory Spec2Isabelle
  imports Complex_Main "HOL-Library.Sublist" "HOL-Library.Multiset"
begin

section \<open>Python strings\<close>

text \<open>
  A Python \<open>str\<close> is modelled as a \<open>string\<close> whose characters are the code points
  below 256. The character classes below follow Python's tables on that range.
\<close>

definition dquote :: char where
  "dquote = CHR 0x22"

definition squote :: char where
  "squote = CHR 0x27"

definition code :: "char \<Rightarrow> nat" where
  "code c = of_char c"

definition is_ascii_letter :: "char \<Rightarrow> bool" where
  \<comment> \<open>the class \<open>[a-zA-Z]\<close>\<close>
  "is_ascii_letter c = ((65 \<le> code c \<and> code c \<le> 90) \<or> (97 \<le> code c \<and> code c \<le> 122))"

definition is_word :: "char \<Rightarrow> bool" where
  \<comment> \<open>the class \<open>\w\<close> of a \<open>str\<close> pattern: alphanumeric code points and the underscore\<close>
  "is_word c =
     (is_ascii_letter c \<or> (48 \<le> code c \<and> code c \<le> 57) \<or> code c = 95
      \<or> code c \<in> {170, 178, 179, 181, 185, 186, 188, 189, 190}
      \<or> (192 \<le> code c \<and> code c \<le> 214) \<or> (216 \<le> code c \<and> code c \<le> 246)
      \<or> 248 \<le> code c)"

definition is_space :: "char \<Rightarrow> bool" where
  \<comment> \<open>the characters \<open>str.strip()\<close> removes\<close>
  "is_space c =
     ((9 \<le> code c \<and> code c \<le> 13) \<or> (28 \<le> code c \<and> code c \<le> 32)
      \<or> code c = 133 \<or> code c = 160)"

definition lower_char :: "char \<Rightarrow> char" where
  "lower_char c =
     (if (65 \<le> code c \<and> code c \<le> 90) \<or> (192 \<le> code c \<and> code c \<le> 214)
         \<or> (216 \<le> code c \<and> code c \<le> 222)
      then char_of (code c + 32) else c)"

definition lower :: "string \<Rightarrow> string" where
  \<comment> \<open>\<open>str.lower()\<close>\<close>
  "lower s = map lower_char s"

definition strip :: "string \<Rightarrow> string" where
  \<comment> \<open>\<open>str.strip()\<close>\<close>
  "strip s = rev (dropWhile is_space (rev (dropWhile is_space s)))"

fun str_in :: "string \<Rightarrow> string \<Rightarrow> bool" where
  \<comment> \<open>\<open>p in s\<close> on strings\<close>
  "str_in p [] = (p = [])"
| "str_in p (c # cs) = (prefix p (c # cs) \<or> str_in p cs)"

fun join :: "string \<Rightarrow> string list \<Rightarrow> string" where
  \<comment> \<open>\<open>sep.join(xs)\<close>\<close>
  "join sep [] = []"
| "join sep [x] = x"
| "join sep (x # y # ys) = x @ sep @ join sep (y # ys)"

fun split_on :: "char \<Rightarrow> string \<Rightarrow> string list" where
  \<comment> \<open>\<open>s.split(d)\<close> for a one-character separator\<close>
  "split_on d [] = [[]]"
| "split_on d (c # cs) =
     (if c = d then [] # split_on d cs
      else (case split_on d cs of [] \<Rightarrow> [[c]] | w # ws \<Rightarrow> (c # w) # ws))"

section \<open>Paths (pathlib on a POSIX system)\<close>

definition path_parts :: "string \<Rightarrow> string list" where
  \<comment> \<open>the components of \<open>Path(p)\<close> below the root: empty and \<open>.\<close> components are dropped\<close>
  "path_parts p = filter (\<lambda>c. c \<noteq> [] \<and> c \<noteq> ''.'') (split_on CHR ''/'' p)"

definition path_root :: "string \<Rightarrow> string" where
  "path_root p =
     (if prefix ''///'' p then ''/'' else if prefix ''//'' p then ''//''
      else if prefix ''/'' p then ''/'' else [])"

definition path_str :: "string \<Rightarrow> string" where
  \<comment> \<open>\<open>str(Path(p))\<close>\<close>
  "path_str p =
     (let s = path_root p @ join ''/'' (path_parts p) in if s = [] then ''.'' else s)"

definition path_name :: "string \<Rightarrow> string" where
  \<comment> \<open>\<open>Path(p).name\<close>\<close>
  "path_name p = (case rev (path_parts p) of [] \<Rightarrow> [] | n # _ \<Rightarrow> n)"

definition rfind_dot :: "string \<Rightarrow> nat option" where
  \<comment> \<open>\<open>name.rfind('.')\<close>, \<open>None\<close> for -1\<close>
  "rfind_dot n =
     (if CHR ''.'' \<in> set n
      then Some (length n - 1 - length (takeWhile (\<lambda>c. c \<noteq> CHR ''.'') (rev n)))
      else None)"

definition path_suffix :: "string \<Rightarrow> string" where
  \<comment> \<open>\<open>Path(p).suffix\<close>\<close>
  "path_suffix p =
     (let n = path_name p in
      case rfind_dot n of
        None \<Rightarrow> []
      | Some i \<Rightarrow> if 0 < i \<and> i < length n - 1 then drop i n else [])"

definition path_stem :: "string \<Rightarrow> string" where
  \<comment> \<open>\<open>Path(p).stem\<close>\<close>
  "path_stem p =
     (let n = path_name p in
      case rfind_dot n of
        None \<Rightarrow> n
      | Some i \<Rightarrow> if 0 < i \<and> i < length n - 1 then take i n else n)"

section \<open>Errors and the file system\<close>

datatype error = Error string

fun str_error :: "error \<Rightarrow> string" where
  \<comment> \<open>\<open>str(e)\<close>\<close>
  "str_error (Error m) = m"

text \<open>
  The file system answers the calls of the program. \<open>fs_exists\<close>, \<open>fs_is_dir\<close> and
  \<open>fs_is_file\<close> are \<open>Path.exists()\<close>, \<open>Path.is_dir()\<close> and \<open>Path.is_file()\<close>: they answer
  \<open>False\<close> for a missing path and raise \<open>OSError\<close> for a path the system refuses to look up
  (a name that is too long, a directory that may not be searched).
\<close>

record filesystem =
  fs_exists :: "string \<Rightarrow> error + bool"
  fs_is_dir :: "string \<Rightarrow> error + bool"
  fs_is_file :: "string \<Rightarrow> error + bool"
  fs_iterdir :: "string \<Rightarrow> error + string list"
  fs_read_text :: "string \<Rightarrow> error + string"
  fs_size :: "string \<Rightarrow> error + nat"

definition supported_extensions :: "string list" where
  \<comment> \<open>the set \<open>{'.pdf', '.txt', '.epub', '.md', '.docx'}\<close>; the order of
      \<open>list(supported_extensions)\<close> is whatever the set yields, here the written one\<close>
  "supported_extensions = [''.pdf'', ''.txt'', ''.epub'', ''.md'', ''.docx'']"


section \<open>Regular expressions\<close>

text \<open>
  The patterns of this program are sequences of greedy repetitions of a character class,
  alternatives of literal words, the word boundary \<open>\b\<close> and one capturing group. A match is
  searched the way Python's \<open>re\<close> does: a repetition first takes as many characters as it
  can and gives them back one at a time; the first success is the match. The result of a
  match is the offset of its end and of the two ends of the group, counted from its start.
\<close>

datatype rx =
    Cls "char \<Rightarrow> bool" nat "nat option"
  | Alt "string list"
  | Bnd
  | Grp_open
  | Grp_close

fun first_some :: "'a option list \<Rightarrow> 'a option" where
  "first_some [] = None"
| "first_some (None # xs) = first_some xs"
| "first_some (Some x # xs) = Some x"

definition word_boundary :: "char option \<Rightarrow> string \<Rightarrow> bool" where
  "word_boundary prev s =
     ((case prev of None \<Rightarrow> False | Some c \<Rightarrow> is_word c)
      \<noteq> (case s of [] \<Rightarrow> False | c # _ \<Rightarrow> is_word c))"

definition run_len :: "(char \<Rightarrow> bool) \<Rightarrow> nat option \<Rightarrow> string \<Rightarrow> nat" where
  "run_len P hi s =
     (case hi of None \<Rightarrow> length (takeWhile P s) | Some h \<Rightarrow> min h (length (takeWhile P s)))"

definition prev_after :: "char option \<Rightarrow> string \<Rightarrow> nat \<Rightarrow> char option" where
  \<comment> \<open>the character before the position reached after \<open>k\<close> more characters\<close>
  "prev_after prev s k = (if k = 0 \<or> s = [] then prev else Some (last (take k s)))"

fun rx_match ::
  "rx list \<Rightarrow> nat \<Rightarrow> char option \<Rightarrow> string \<Rightarrow> (nat \<times> nat \<times> nat) option"
where
  "rx_match [] i prev s = Some (i, 0, 0)"
| "rx_match (Bnd # rs) i prev s = (if word_boundary prev s then rx_match rs i prev s else None)"
| "rx_match (Grp_open # rs) i prev s =
     map_option (\<lambda>(e, gs, ge). (e, i, ge)) (rx_match rs i prev s)"
| "rx_match (Grp_close # rs) i prev s =
     map_option (\<lambda>(e, gs, ge). (e, gs, i)) (rx_match rs i prev s)"
| "rx_match (Alt ws # rs) i prev s =
     first_some (map (\<lambda>w. if prefix w s
                           then rx_match rs (i + length w) (prev_after prev s (length w))
                                  (drop (length w) s)
                           else None) ws)"
| "rx_match (Cls P lo hi # rs) i prev s =
     first_some (map (\<lambda>k. rx_match rs (i + k) (prev_after prev s k) (drop k s))
                     (rev [lo ..< Suc (run_len P hi s)]))"

function re_findall_from :: "rx list \<Rightarrow> char option \<Rightarrow> string \<Rightarrow> string list" where
  "re_findall_from p prev [] =
     (case rx_match p 0 prev [] of None \<Rightarrow> [] | Some (e, gs, ge) \<Rightarrow> [[]])"
| "re_findall_from p prev (c # cs) =
     (case rx_match p 0 prev (c # cs) of
        None \<Rightarrow> re_findall_from p (Some c) cs
      | Some (e, gs, ge) \<Rightarrow>
          take (ge - gs) (drop gs (c # cs))
            # (if e = 0 then re_findall_from p (Some c) cs
               else re_findall_from p (prev_after prev (c # cs) e) (drop e (c # cs))))"
  by pat_completeness auto
termination
  by (relation "measure (\<lambda>(p, prev, s). length s)") auto

definition re_findall :: "rx list \<Rightarrow> string \<Rightarrow> string list" where
  \<comment> \<open>\<open>re.findall(p, s)\<close> for a pattern with one group: the groups of the successive matches\<close>
  "re_findall p s = re_findall_from p None s"

fun re_search_from :: "rx list list \<Rightarrow> char option \<Rightarrow> string \<Rightarrow> string option" where
  "re_search_from ps prev [] =
     (case first_some (map (\<lambda>p. rx_match p 0 prev []) ps) of
        None \<Rightarrow> None | Some (e, gs, ge) \<Rightarrow> Some [])"
| "re_search_from ps prev (c # cs) =
     (case first_some (map (\<lambda>p. rx_match p 0 prev (c # cs)) ps) of
        None \<Rightarrow> re_search_from ps (Some c) cs
      | Some (e, gs, ge) \<Rightarrow> Some (take (ge - gs) (drop gs (c # cs))))"

definition re_search :: "rx list list \<Rightarrow> string \<Rightarrow> string option" where
  \<comment> \<open>\<open>re.search\<close> for a pattern given as its alternatives in order of preference:
      the group of the leftmost match\<close>
  "re_search ps s = re_search_from ps None s"

definition lit :: "char \<Rightarrow> rx" where
  "lit c = Cls (\<lambda>x. x = c) 1 (Some 1)"

section \<open>tools.py: extracting paths\<close>

definition quoted_file_pattern :: "char \<Rightarrow> rx list" where
  \<comment> \<open>\<open>"([^"]+\.[a-zA-Z]{2,4})"\<close> and the same with single quotes\<close>
  "quoted_file_pattern q =
     [lit q, Grp_open, Cls (\<lambda>c. c \<noteq> q) 1 None, lit CHR ''.'', Cls is_ascii_letter 2 (Some 4),
      Grp_close, lit q]"

definition is_path_char :: "char \<Rightarrow> bool" where
  \<comment> \<open>the class \<open>[\w\-_./\\]\<close>\<close>
  "is_path_char c = (is_word c \<or> c \<in> set ''-_./'' \<or> c = CHR 0x5C)"

definition is_slash :: "char \<Rightarrow> bool" where
  \<comment> \<open>the class \<open>[/\\]\<close>\<close>
  "is_slash c = (c = CHR ''/'' \<or> c = CHR 0x5C)"

definition unquoted_file_pattern_1 :: "rx list" where
  \<comment> \<open>\<open>(\b[\w\-_./\\]+\.[a-zA-Z]{2,4})\b\<close>\<close>
  "unquoted_file_pattern_1 =
     [Grp_open, Bnd, Cls is_path_char 1 None, lit CHR ''.'', Cls is_ascii_letter 2 (Some 4),
      Grp_close, Bnd]"

definition unquoted_file_pattern_2 :: "rx list" where
  \<comment> \<open>\<open>([/\\]?[\w\-_./\\]+\.[a-zA-Z]{2,4})\<close>\<close>
  "unquoted_file_pattern_2 =
     [Grp_open, Cls is_slash 0 (Some 1), Cls is_path_char 1 None, lit CHR ''.'',
      Cls is_ascii_letter 2 (Some 4), Grp_close]"

definition false_positive :: "string \<Rightarrow> bool" where
  \<comment> \<open>\<open>any(fp in match.lower() for fp in ['www.', 'http', '.com', '.org'])\<close>\<close>
  "false_positive m = list_ex (\<lambda>fp. str_in fp (lower m)) [''www.'', ''http'', ''.com'', ''.org'']"

definition extract_document_paths :: "string \<Rightarrow> string list" where
  \<comment> \<open>The result is \<open>list(set(cleaned_paths))\<close>: its order is not fixed by Python, here each
      path stands at its last occurrence.\<close>
  "extract_document_paths q =
     (let quoted = re_findall (quoted_file_pattern dquote) q
                   @ re_findall (quoted_file_pattern squote) q;
          paths = (if quoted = []
                   then filter (\<lambda>m. \<not> false_positive m) (re_findall unquoted_file_pattern_1 q)
                        @ filter (\<lambda>m. \<not> false_positive m) (re_findall unquoted_file_pattern_2 q)
                   else quoted);
          cleaned_paths = filter (\<lambda>p. p \<noteq> [] \<and> 1 < length p) (map strip paths)
      in remdups cleaned_paths)"

definition quoted_dir_pattern :: "char \<Rightarrow> rx list" where
  \<comment> \<open>\<open>"([^"]+/)"\<close> and the same with single quotes\<close>
  "quoted_dir_pattern q =
     [lit q, Grp_open, Cls (\<lambda>c. c \<noteq> q) 1 None, lit CHR ''/'', Grp_close, lit q]"

definition is_dir_char :: "char \<Rightarrow> bool" where
  \<comment> \<open>the class \<open>[\w\-_.]\<close>\<close>
  "is_dir_char c = (is_word c \<or> c \<in> set ''-_.'')"

definition unquoted_dir_pattern :: "rx list" where
  \<comment> \<open>\<open>([/\\]?[\w\-_.]+[/\\])\<close>\<close>
  "unquoted_dir_pattern =
     [Grp_open, Cls is_slash 0 (Some 1), Cls is_dir_char 1 None, Cls is_slash 1 (Some 1),
      Grp_close]"

fun first_match :: "rx list list \<Rightarrow> string \<Rightarrow> string option" where
  \<comment> \<open>the loop over \<open>directory_patterns\<close>: the first match of the first pattern that has one\<close>
  "first_match [] q = None"
| "first_match (p # ps) q =
     (case re_findall p q of [] \<Rightarrow> first_match ps q | m # _ \<Rightarrow> Some m)"

definition extract_directory_from_query :: "string \<Rightarrow> string option" where
  "extract_directory_from_query q =
     first_match [quoted_dir_pattern dquote, quoted_dir_pattern squote, unquoted_dir_pattern] q"

definition truthy :: "string option \<Rightarrow> bool" where
  \<comment> \<open>the truth value of an optional string: \<open>None\<close> and the empty string are false\<close>
  "truthy v = (case v of None \<Rightarrow> False | Some s \<Rightarrow> s \<noteq> [])"

section \<open>tools.py: the intent of a query\<close>

definition ingestion_patterns :: "string list" where
  "ingestion_patterns =
     [''ingest'', ''add'', ''load'', ''import'', ''process'', ''index'', ''upload'',
      ''include'', ''incorporate'']"

definition search_patterns :: "string list" where
  "search_patterns =
     [''search'', ''find'', ''what'', ''how'', ''when'', ''where'', ''why'', ''explain'',
      ''describe'', ''tell me'', ''show me'']"

definition management_patterns :: "string list" where
  "management_patterns =
     [''list'', ''show'', ''stats'', ''statistics'', ''status'', ''manage'', ''delete'',
      ''remove'', ''clear'']"

record intent_info =
  ii_intent :: string
  ii_document_paths :: "string list"
  ii_directory_path :: "string option"
  ii_original_query :: string

definition parse_query_intent :: "string \<Rightarrow> intent_info" where
  "parse_query_intent q =
     (let query_lower = lower q;
          document_paths = extract_document_paths q;
          directory_path = extract_directory_from_query q;
          intent_v =
            (if list_ex (\<lambda>pattern. str_in pattern query_lower) ingestion_patterns
                \<or> document_paths \<noteq> [] \<or> truthy directory_path
             then ''ingest''
             else if list_ex (\<lambda>pattern. str_in pattern query_lower) management_patterns
             then ''manage''
             else if list_ex (\<lambda>pattern. str_in pattern query_lower) search_patterns
             then ''search''
             else ''chat'')
      in \<lparr>ii_intent = intent_v, ii_document_paths = document_paths,
          ii_directory_path = directory_path, ii_original_query = q\<rparr>)"

section \<open>tools.py: validate\_file\_paths\<close>

record validation_result =
  valid :: "string list"
  invalid :: "string list"
  supported :: "string list"

text \<open>
  The loop of \<open>validate_file_paths\<close>. Nothing catches what \<open>path_obj.exists()\<close> raises, so
  the call raises at the first path whose existence check raises.
\<close>

fun validate_loop ::
  "filesystem \<Rightarrow> string list \<Rightarrow> string list \<Rightarrow> string list
     \<Rightarrow> error + string list \<times> string list"
where
  "validate_loop fs [] valid_paths invalid_paths = Inr (valid_paths, invalid_paths)"
| "validate_loop fs (path # paths) valid_paths invalid_paths =
     (case fs_exists fs path of
        Inl e \<Rightarrow> Inl e
      | Inr found \<Rightarrow>
          (if found then
             (if lower (path_suffix path) \<in> set supported_extensions
              then validate_loop fs paths (valid_paths @ [path_str path]) invalid_paths
              else validate_loop fs paths valid_paths
                     (invalid_paths @ [path @ '' (unsupported format)'']))
           else validate_loop fs paths valid_paths
                  (invalid_paths @ [path @ '' (file not found)''])))"

definition validate_file_paths :: "filesystem \<Rightarrow> string list \<Rightarrow> error + validation_result" where
  "validate_file_paths fs paths =
     (case validate_loop fs paths [] [] of
        Inl e \<Rightarrow> Inl e
      | Inr (valid_paths, invalid_paths) \<Rightarrow>
          Inr \<lparr>valid = valid_paths, invalid = invalid_paths, supported = supported_extensions\<rparr>)"

definition no_files :: filesystem where
  \<comment> \<open>a file system in which no path exists\<close>
  "no_files =
     \<lparr>fs_exists = (\<lambda>_. Inr False), fs_is_dir = (\<lambda>_. Inr False), fs_is_file = (\<lambda>_. Inr False),
      fs_iterdir = (\<lambda>_. Inl (Error ''not found'')),
      fs_read_text = (\<lambda>_. Inl (Error ''not found'')),
      fs_size = (\<lambda>_. Inl (Error ''not found''))\<rparr>"

definition one_file :: filesystem where
  \<comment> \<open>a file system whose only file is \<open>a.txt\<close> in the current directory, and which refuses
      to look up a name of more than 255 characters\<close>
  "one_file =
     \<lparr>fs_exists = (\<lambda>p. if 255 < length (path_name p) then Inl (Error ''File name too long'')
                        else Inr (path_str p = ''a.txt'')),
      fs_is_dir = (\<lambda>p. if 255 < length (path_name p) then Inl (Error ''File name too long'')
                        else Inr (path_str p = ''.'')),
      fs_is_file = (\<lambda>p. if 255 < length (path_name p) then Inl (Error ''File name too long'')
                        else Inr (path_str p = ''a.txt'')),
      fs_iterdir = (\<lambda>p. if path_str p = ''.'' then Inr [''a.txt''] else Inl (Error ''not found'')),
      fs_read_text = (\<lambda>p. if path_str p = ''a.txt'' then Inr ''text'' else Inl (Error ''not found'')),
      fs_size = (\<lambda>p. if path_str p = ''a.txt'' then Inr 4 else Inl (Error ''not found''))\<rparr>"

definition exists_answers :: "filesystem \<Rightarrow> string \<Rightarrow> bool" where
  \<comment> \<open>the existence check of the path returns\<close>
  "exists_answers fs p = (case fs_exists fs p of Inl e \<Rightarrow> False | Inr found \<Rightarrow> True)"

definition path_ok :: "filesystem \<Rightarrow> string \<Rightarrow> bool" where
  \<comment> \<open>the test that sends a path to the valid list\<close>
  "path_ok fs p =
     (fs_exists fs p = Inr True \<and> lower (path_suffix p) \<in> set supported_extensions)"

definition invalid_entry :: "filesystem \<Rightarrow> string \<Rightarrow> string" where
  \<comment> \<open>the entry the invalid list receives for a path that is not valid\<close>
  "invalid_entry fs p =
     (if fs_exists fs p = Inr True then p @ '' (unsupported format)''
      else p @ '' (file not found)'')"

definition untag :: "string \<Rightarrow> string" where
  \<comment> \<open>an entry of the invalid list without its reason tag\<close>
  "untag s =
     (if suffix '' (file not found)'' s then take (length s - 17) s
      else if suffix '' (unsupported format)'' s then take (length s - 21) s
      else s)"

definition long_name :: string where
  \<comment> \<open>a file name of 304 characters\<close>
  "long_name = replicate 300 CHR ''a'' @ ''.txt''"

definition file_token :: "char \<Rightarrow> string \<Rightarrow> bool" where
  \<comment> \<open>a token that the quoted pattern with quote \<open>q\<close> accepts between two quotes: a non-empty
      part without the quote, a dot, and two to four ASCII letters\<close>
  "file_token q g =
     (\<exists>x ext. g = x @ ''.'' @ ext \<and> x \<noteq> [] \<and> q \<notin> set x \<and> 2 \<le> length ext \<and> length ext \<le> 4
              \<and> (\<forall>c\<in>set ext. is_ascii_letter c))"

section \<open>agent.py: quoting paths into a query\<close>

definition quote_paths :: "string list \<Rightarrow> string" where
  \<comment> \<open>\<open>paths_str\<close> of \<open>ingest_documents\<close>: \<open>", ".join(f'"{path}"' for path in document_paths)\<close>\<close>
  "quote_paths ps = join '', '' (map (\<lambda>path. [dquote] @ path @ [dquote]) ps)"

section \<open>state.py: the request record\<close>

datatype message = HumanMessage string | AIMessage string

text \<open>
  A Python float: a finite number, an infinity, or NaN. The finite floats are modelled by the
  reals, which order them the same way. \<open>float_lt\<close> is \<open><\<close> and \<open>float_le\<close> is \<open><=\<close>: every
  comparison with NaN is false.
\<close>

datatype pyfloat = Finite real | Pos_inf | Neg_inf | Nan

fun float_lt :: "pyfloat \<Rightarrow> pyfloat \<Rightarrow> bool" where
  "float_lt (Finite a) (Finite b) = (a < b)"
| "float_lt (Finite a) Pos_inf = True"
| "float_lt Neg_inf (Finite b) = True"
| "float_lt Neg_inf Pos_inf = True"
| "float_lt _ _ = False"

definition float_le :: "pyfloat \<Rightarrow> pyfloat \<Rightarrow> bool" where
  "float_le a b = (a \<noteq> Nan \<and> b \<noteq> Nan \<and> \<not> float_lt b a)"

record chunk =
  chunk_text :: string
  chunk_score :: pyfloat
  source_memory :: string
  chunk_rank :: nat

record memory_descriptor =
  mp_video :: string
  mp_index :: string
  mp_name :: string

text \<open>
  \<open>ConversationState\<close>. The field \<open>contexts\<close> is the key \<open>context\<close>; \<open>memory_paths\<close> is
  \<open>None\<close> for the empty dict. \<open>messages\<close> holds the contents of the list object that the
  state shares with the session: what a node appends to that object in place is appended here.
\<close>

record conversation_state =
  messages :: "message list"
  query :: string
  contexts :: "string list"
  retrieved_chunks :: "chunk list"
  response :: string
  intent :: string
  processing_status :: string
  session_id :: string
  memory_paths :: "memory_descriptor option"
  error_message :: "string option"

section \<open>nodes.py: analysis and routing\<close>

text \<open>
  \<open>parse_query_intent\<close> cannot raise on a string, so the \<open>except\<close> branch of
  \<open>analyze_query_node\<close> (intent \<open>error\<close>, status \<open>analysis_error\<close>) is never taken.
\<close>

definition analyze_query_node :: "conversation_state \<Rightarrow> conversation_state" where
  "analyze_query_node st =
     st\<lparr>intent := ii_intent (parse_query_intent (query st)), processing_status := ''analyzed''\<rparr>"

datatype node =
    Query_analyzer
  | Document_ingestor
  | Semantic_retriever
  | Context_assembler
  | Response_generator
  | Memory_manager
  | Error_handler

definition route_query :: "conversation_state \<Rightarrow> node" where
  \<comment> \<open>the \<open>routing\<close> dict with its default, and the identity mapping of the conditional edges\<close>
  "route_query st =
     (if intent st = ''ingest'' then Document_ingestor
      else if intent st = ''search'' then Semantic_retriever
      else if intent st = ''chat'' then Semantic_retriever
      else if intent st = ''manage'' then Memory_manager
      else if intent st = ''error'' then Error_handler
      else Semantic_retriever)"

section \<open>nodes.py: retrieval\<close>

type_synonym retriever = "string \<Rightarrow> nat \<Rightarrow> error + (string \<times> pyfloat) list"

definition tag_results :: "string \<Rightarrow> (string \<times> pyfloat) list \<Rightarrow> chunk list" where
  \<comment> \<open>the inner loop over \<open>enumerate(results)\<close>\<close>
  "tag_results memory_name results =
     map (\<lambda>(i, (t, s)). \<lparr>chunk_text = t, chunk_score = s, source_memory = memory_name,
                          chunk_rank = i + 1\<rparr>)
         (enumerate 0 results)"

fun search_all :: "string \<Rightarrow> (string \<times> retriever) list \<Rightarrow> chunk list \<Rightarrow> chunk list" where
  \<comment> \<open>the loop over \<open>active_memories.items()\<close>; a search that raises is logged and skipped\<close>
  "search_all q [] retrieved = retrieved"
| "search_all q ((memory_name, retriever) # rest) retrieved =
     (case retriever q 5 of
        Inl e \<Rightarrow> search_all q rest retrieved
      | Inr results \<Rightarrow> search_all q rest (retrieved @ tag_results memory_name results))"

text \<open>
  \<open>retrieved_chunks.sort(key=..., reverse=True)\<close>, as CPython 3.9 to 3.12 sorts a list of fewer
  than 64 elements whose keys are floats: the list is reversed; the run at its start is
  found (\<open>count_run\<close>) and reversed if it descends strictly; every later element is inserted
  into the sorted part at the place a binary search gives (\<open>binarysort\<close>); the list is
  reversed again. The only comparison is \<open><\<close> on the keys. A longer list is cut into such
  runs, which are then merged; when \<open><\<close> orders the keys, that is, when no key is NaN, the
  result is the same list, the only stable sorted arrangement there is. With a NaN among
  the keys of 64 or more chunks the merge is not modelled.
\<close>

fun count_asc :: "chunk \<Rightarrow> chunk list \<Rightarrow> nat" where
  \<comment> \<open>how many elements continue a run that does not descend\<close>
  "count_asc prev [] = 0"
| "count_asc prev (x # xs) =
     (if float_lt (chunk_score x) (chunk_score prev) then 0 else Suc (count_asc x xs))"

fun count_desc :: "chunk \<Rightarrow> chunk list \<Rightarrow> nat" where
  \<comment> \<open>how many elements continue a strictly descending run\<close>
  "count_desc prev [] = 0"
| "count_desc prev (x # xs) =
     (if float_lt (chunk_score x) (chunk_score prev) then Suc (count_desc x xs) else 0)"

fun count_run :: "chunk list \<Rightarrow> nat \<times> bool" where
  \<comment> \<open>the length of the run at the start of the list, and whether it descends\<close>
  "count_run [] = (0, False)"
| "count_run [x] = (1, False)"
| "count_run (x # y # ys) =
     (if float_lt (chunk_score y) (chunk_score x) then (2 + count_desc y ys, True)
      else (2 + count_asc y ys, False))"

function bisect :: "chunk \<Rightarrow> chunk list \<Rightarrow> nat \<Rightarrow> nat \<Rightarrow> nat" where
  \<comment> \<open>the binary search of \<open>binarysort\<close> between \<open>l\<close> and \<open>r\<close>\<close>
  "bisect pivot xs l r =
     (if l < r then
        (let p = l + (r - l) div 2 in
         if float_lt (chunk_score pivot) (chunk_score (xs ! p)) then bisect pivot xs l p
         else bisect pivot xs (p + 1) r)
      else l)"
  by pat_completeness auto
termination
  by (relation "measure (\<lambda>(pivot, xs, l, r). r - l)") auto

declare bisect.simps [simp del]

definition binary_insert :: "chunk \<Rightarrow> chunk list \<Rightarrow> chunk list" where
  "binary_insert pivot xs =
     (let l = bisect pivot xs 0 (length xs) in take l xs @ [pivot] @ drop l xs)"

fun binarysort :: "chunk list \<Rightarrow> chunk list \<Rightarrow> chunk list" where
  \<comment> \<open>inserts the elements of the second list, in order, into the first, which is sorted\<close>
  "binarysort sorted_part [] = sorted_part"
| "binarysort sorted_part (pivot # rest) = binarysort (binary_insert pivot sorted_part) rest"

definition listsort :: "chunk list \<Rightarrow> chunk list" where
  \<comment> \<open>the ascending sort\<close>
  "listsort xs =
     (case count_run xs of
        (n, descending) \<Rightarrow>
          binarysort (if descending then rev (take n xs) else take n xs) (drop n xs))"

definition sort_desc :: "chunk list \<Rightarrow> chunk list" where
  \<comment> \<open>\<open>list.sort(key=score, reverse=True)\<close>\<close>
  "sort_desc xs = rev (listsort (rev xs))"

abbreviation asc :: "chunk \<Rightarrow> chunk \<Rightarrow> bool" where
  \<comment> \<open>the score of the first chunk is \<open><=\<close> the score of the second\<close>
  "asc a b \<equiv> float_le (chunk_score a) (chunk_score b)"

definition no_nan :: "chunk list \<Rightarrow> bool" where
  \<comment> \<open>no score of the list is NaN\<close>
  "no_nan xs = list_all (\<lambda>c. chunk_score c \<noteq> Nan) xs"

definition retrieve_context_node ::
  "conversation_state \<Rightarrow> (string \<times> retriever) list \<Rightarrow> conversation_state"
where
  "retrieve_context_node st active_memories =
     (if active_memories = []
      then st\<lparr>contexts := [], retrieved_chunks := [], processing_status := ''no_memories''\<rparr>
      else
        (let sorted_chunks = sort_desc (search_all (query st) active_memories [])
         in st\<lparr>retrieved_chunks := take 10 sorted_chunks,
               contexts := map chunk_text (take 5 sorted_chunks),
               processing_status := ''context_retrieved''\<rparr>))"

definition found :: "string \<Rightarrow> string \<times> retriever \<Rightarrow> chunk list" where
  \<comment> \<open>what one registered memory contributes to the merged list\<close>
  "found q m = (case snd m q 5 of Inl e \<Rightarrow> [] | Inr results \<Rightarrow> tag_results (fst m) results)"


definition fixed_retriever :: "(string \<times> pyfloat) list \<Rightarrow> retriever" where
  \<comment> \<open>a retriever that answers every query with the first \<open>top_k\<close> of a fixed list\<close>
  "fixed_retriever results = (\<lambda>q top_k. Inr (take top_k results))"


section \<open>agent.py: the initial state of a request\<close>

definition initial_state :: "message list \<Rightarrow> string \<Rightarrow> string \<Rightarrow> conversation_state" where
  "initial_state session_messages user_input sid =
     \<lparr>messages = session_messages, query = user_input, contexts = [], retrieved_chunks = [],
      response = [], intent = [], processing_status = ''initialized'', session_id = sid,
      memory_paths = None, error_message = None\<rparr>"

section \<open>The outside world\<close>

text \<open>
  Every call that leaves the program is answered by the environment of the request: the file
  system, the clock, the generative model, the encoder and the loader of retrievers. A call
  that raises answers with an error. The state of the encoder is its list of chunks; an
  operation on it returns the error it raised, if any, and the chunks afterwards.
  \<open>env_now\<close> is \<open>datetime.now().strftime("%Y%m%d_%H%M%S")\<close> at the time of the request and
  \<open>env_session_time\<close> the creation time of a new session. \<open>env_fmt_mb\<close> is the format
  \<open>:.1f\<close> of the sum of the given sizes in bytes, each divided by \<open>1024*1024\<close>, and
  \<open>env_fmt_score\<close> the format \<open>:.3f\<close> of a score. \<open>env_glob_mp4\<close> lists the files
  \<open>*.mp4\<close> of a directory and \<open>env_load_retriever\<close> is \<open>MemvidRetriever(video, index)\<close>.
\<close>

record env =
  env_fs :: filesystem
  env_now :: string
  env_session_time :: string
  env_fmt_mb :: "nat list \<Rightarrow> string"
  env_fmt_score :: "pyfloat \<Rightarrow> string"
  env_llm :: "message list \<Rightarrow> error + string"
  env_encoder_new :: "error + string list"
  env_add_pdf :: "string \<Rightarrow> string list \<Rightarrow> error option \<times> string list"
  env_add_epub :: "string \<Rightarrow> string list \<Rightarrow> error option \<times> string list"
  env_add_text :: "string \<Rightarrow> string \<Rightarrow> string list \<Rightarrow> error option \<times> string list"
  env_mkdir :: "string \<Rightarrow> error option"
  env_build_video :: "string \<Rightarrow> string \<Rightarrow> string list \<Rightarrow> error option"
  env_glob_mp4 :: "string \<Rightarrow> error + string list"
  env_load_retriever :: "string \<Rightarrow> string \<Rightarrow> error + retriever"

section \<open>Text of the responses\<close>

text \<open>The symbols of the messages are written as their UTF-8 bytes.\<close>

definition nl :: string where
  "nl = [CHR 0x0A]"

definition cross_mark :: string where
  "cross_mark = [CHR 0xE2, CHR 0x9D, CHR 0x8C]"

definition bullet :: string where
  "bullet = [CHR 0xE2, CHR 0x80, CHR 0xA2]"

definition light_bulb :: string where
  "light_bulb = [CHR 0xF0, CHR 0x9F, CHR 0x92, CHR 0xA1]"

definition magnifier :: string where
  "magnifier = [CHR 0xF0, CHR 0x9F, CHR 0x94, CHR 0x8D]"

definition folder_sign :: string where
  "folder_sign = [CHR 0xF0, CHR 0x9F, CHR 0x93, CHR 0x81]"

definition chart_sign :: string where
  "chart_sign = [CHR 0xF0, CHR 0x9F, CHR 0x93, CHR 0x8A]"

definition target_sign :: string where
  "target_sign = [CHR 0xF0, CHR 0x9F, CHR 0x8E, CHR 0xAF]"

definition disk_sign :: string where
  "disk_sign = [CHR 0xF0, CHR 0x9F, CHR 0x92, CHR 0xBE]"

definition tools_sign :: string where
  "tools_sign = [CHR 0xF0, CHR 0x9F, CHR 0x9B, CHR 0xA0, CHR 0xEF, CHR 0xB8, CHR 0x8F]"

definition warning_sign :: string where
  "warning_sign = [CHR 0xE2, CHR 0x9A, CHR 0xA0, CHR 0xEF, CHR 0xB8, CHR 0x8F]"

definition check_mark :: string where
  "check_mark = [CHR 0xE2, CHR 0x9C, CHR 0x85]"

function str_nat :: "nat \<Rightarrow> string" where
  \<comment> \<open>\<open>str(n)\<close> of a natural number\<close>
  "str_nat n =
     (if n < 10 then [char_of (48 + n)] else str_nat (n div 10) @ [char_of (48 + n mod 10)])"
  by pat_completeness auto
termination
  by (relation "measure (\<lambda>n. n)") auto

section \<open>nodes.py: assembling the context\<close>

fun context_parts_from :: "env \<Rightarrow> nat \<Rightarrow> chunk list \<Rightarrow> string list" where
  \<comment> \<open>the loop over \<open>enumerate(chunks[:5], 1)\<close>\<close>
  "context_parts_from e i [] = []"
| "context_parts_from e i (c # cs) =
     (''[Context '' @ str_nat i @ ''] (Relevance: '' @ env_fmt_score e (chunk_score c)
        @ '', Source: '' @ source_memory c @ '')'' @ nl @ chunk_text c)
     # context_parts_from e (Suc i) cs"

text \<open>
  Nothing in the \<open>try\<close> block of \<open>assemble_context_node\<close> raises on chunks built by the
  retrieval node, so the status \<open>assembly_error\<close> is never set.
\<close>

definition assemble_context_node :: "env \<Rightarrow> conversation_state \<Rightarrow> conversation_state" where
  "assemble_context_node e st =
     (if retrieved_chunks st = []
      then st\<lparr>contexts := [], processing_status := ''no_context''\<rparr>
      else st\<lparr>contexts := [join (nl @ nl) (context_parts_from e 1 (take 5 (retrieved_chunks st)))],
              processing_status := ''context_assembled''\<rparr>)"

section \<open>nodes.py: generating the response\<close>

definition no_context_prompt :: "string \<Rightarrow> string" where
  "no_context_prompt q =
     ''The user asked: '' @ [dquote] @ q @ [dquote] @ nl @ nl
     @ ''However, no relevant context was found in the knowledge base. Please provide a helpful response explaining that no relevant information was found and suggest how they might:''
     @ nl @ nl
     @ ''1. Add relevant documents to the knowledge base'' @ nl
     @ ''2. Refine their query to be more specific'' @ nl
     @ ''3. Use different keywords'' @ nl @ nl
     @ ''Be polite and helpful.''"

definition context_prompt :: "string \<Rightarrow> string list \<Rightarrow> string" where
  "context_prompt q ctx =
     ''Based on the following context from the knowledge base, please answer the user's question comprehensively and accurately.''
     @ nl @ nl @ ''**Context:**'' @ nl @ join (nl @ nl) ctx @ nl @ nl
     @ ''**User Question:** '' @ [dquote] @ q @ [dquote] @ nl @ nl
     @ ''**Instructions:**'' @ nl
     @ ''- Provide a comprehensive answer based on the context provided'' @ nl
     @ ''- If the context doesn't fully answer the question, acknowledge this limitation'' @ nl
     @ ''- Use information only from the provided context'' @ nl
     @ ''- Be specific and cite relevant details from the context'' @ nl
     @ ''- If multiple sources provide different perspectives, mention this'' @ nl @ nl
     @ ''Please provide your response:''"

definition response_prompt :: "conversation_state \<Rightarrow> string" where
  "response_prompt st =
     (if contexts st = [] then no_context_prompt (query st)
      else context_prompt (query st) (contexts st))"

text \<open>
  \<open>messages.append(HumanMessage(...))\<close> changes the list object of the state, which is the
  list of the session, before the model is called. When the call raises, the handler sets
  the response, the status and the error message; the appended prompt stays in the list.
\<close>

definition generate_response_node :: "env \<Rightarrow> conversation_state \<Rightarrow> conversation_state" where
  "generate_response_node e st =
     (let appended = messages st @ [HumanMessage (response_prompt st)] in
      case env_llm e appended of
        Inr content \<Rightarrow>
          st\<lparr>messages := appended @ [AIMessage content], response := content,
             processing_status := ''response_generated''\<rparr>
      | Inl err \<Rightarrow>
          st\<lparr>messages := appended,
             response := cross_mark @ '' Error generating response: '' @ str_error err,
             processing_status := ''generation_error'',
             error_message := Some (str_error err)\<rparr>)"

section \<open>nodes.py: the error handler\<close>

definition error_responses :: "(string \<times> string) list" where
  "error_responses =
     [(''analysis_error'',
         cross_mark @ '' I encountered an error analyzing your query. Please try rephrasing your request.''),
      (''ingestion_error'',
         cross_mark @ '' There was an error processing your documents. Please check the file paths and formats.''),
      (''retrieval_error'',
         cross_mark @ '' I couldn't search the knowledge base properly. Please try a different query.''),
      (''generation_error'',
         cross_mark @ '' I encountered an error generating a response. Please try again.''),
      (''no_memories'',
         light_bulb @ '' No memory stores are currently loaded. Please ingest some documents first using: `Add ''
           @ [dquote] @ ''document.pdf'' @ [dquote] @ '' to memory`''),
      (''no_context'',
         magnifier @ '' No relevant information found for your query. Try:'' @ nl
           @ bullet @ '' Using different keywords'' @ nl
           @ bullet @ '' Adding relevant documents to memory'' @ nl
           @ bullet @ '' Being more specific in your question'')]"

definition handle_errors_node :: "conversation_state \<Rightarrow> conversation_state" where
  "handle_errors_node st =
     (let status = processing_status st;
          tag = (case split_on CHR '':'' status of [] \<Rightarrow> status | t # _ \<Rightarrow> t);
          base_response =
            (case map_of error_responses tag of
               Some r \<Rightarrow> r
             | None \<Rightarrow> cross_mark @ '' An unexpected error occurred. Please try again.'')
      in st\<lparr>response :=
               (if truthy (error_message st) \<and> str_in ''debug'' (lower (query st))
                then base_response @ nl @ nl @ ''**Debug info:** '' @ (case error_message st of None \<Rightarrow> [] | Some m \<Rightarrow> m)
                else base_response),
             processing_status := ''error_handled''\<rparr>)"

section \<open>nodes.py: memory management\<close>

definition path_join :: "string \<Rightarrow> string \<Rightarrow> string" where
  \<comment> \<open>\<open>str(Path(a) / b)\<close>: an absolute \<open>b\<close> replaces \<open>a\<close>\<close>
  "path_join a b =
     path_str (if prefix ''/'' b then b else if a = [] then b else a @ ''/'' @ b)"

fun memory_info :: "env \<Rightarrow> string \<Rightarrow> (string \<times> retriever) list \<Rightarrow> string list" where
  \<comment> \<open>the loop of the listing: a memory whose file is missing gets no line, a memory whose
      file cannot be examined gets the line \<open>stats unavailable\<close>\<close>
  "memory_info e storage_path [] = []"
| "memory_info e storage_path ((name, retriever) # rest) =
     (let video_path = path_join storage_path (name @ ''.mp4'') in
      (case fs_exists (env_fs e) video_path of
         Inl err \<Rightarrow> [bullet @ '' **'' @ name @ ''**: (stats unavailable)'']
       | Inr present \<Rightarrow>
           (if present then
              (case fs_size (env_fs e) video_path of
                 Inl err \<Rightarrow> [bullet @ '' **'' @ name @ ''**: (stats unavailable)'']
               | Inr bytes \<Rightarrow> [bullet @ '' **'' @ name @ ''**: '' @ env_fmt_mb e [bytes] @ '' MB''])
            else []))
      @ memory_info e storage_path rest)"

fun stat_sizes :: "filesystem \<Rightarrow> string list \<Rightarrow> nat list \<Rightarrow> error + nat list" where
  \<comment> \<open>the sizes of the files, in order; the first \<open>stat()\<close> that raises ends the loop\<close>
  "stat_sizes fs [] sizes = Inr sizes"
| "stat_sizes fs (f # files) sizes =
     (case fs_size fs f of Inl err \<Rightarrow> Inl err | Inr bytes \<Rightarrow> stat_sizes fs files (sizes @ [bytes]))"

definition storage_sizes :: "env \<Rightarrow> string \<Rightarrow> error + nat list" where
  \<comment> \<open>the sizes that the statistics add up\<close>
  "storage_sizes e storage_path =
     (case fs_exists (env_fs e) storage_path of
        Inl err \<Rightarrow> Inl err
      | Inr present \<Rightarrow>
          (if present then
             (case env_glob_mp4 e storage_path of
                Inl err \<Rightarrow> Inl err
              | Inr files \<Rightarrow> stat_sizes (env_fs e) files [])
           else Inr []))"

definition list_response :: "string list \<Rightarrow> string" where
  "list_response info = folder_sign @ '' **Active Memory Stores:**'' @ nl @ join nl info"

definition no_stores_response :: string where
  "no_stores_response =
     folder_sign @ '' No memory stores currently loaded.'' @ nl @ nl
     @ light_bulb @ '' To get started:'' @ nl
     @ bullet @ '' Ingest documents with: `Add '' @ [dquote] @ ''document.pdf'' @ [dquote]
     @ '' to memory`''"

definition stats_response :: "nat \<Rightarrow> string \<Rightarrow> string \<Rightarrow> string" where
  "stats_response total_memories total_size storage_path =
     chart_sign @ '' **Memory Statistics:**'' @ nl @ nl
     @ target_sign @ '' **Overview:**'' @ nl
     @ bullet @ '' Total memory stores: '' @ str_nat total_memories @ nl
     @ bullet @ '' Total storage size: '' @ total_size @ '' MB'' @ nl
     @ bullet @ '' Storage location: '' @ storage_path @ nl @ nl
     @ disk_sign @ '' **Storage Efficiency:**'' @ nl
     @ bullet @ '' Video-based compression provides 10x efficiency vs traditional databases'' @ nl
     @ bullet @ '' Each memory can store millions of text chunks'' @ nl
     @ bullet @ '' Offline-first design - no internet required for search''"

definition no_stats_response :: string where
  "no_stats_response = chart_sign @ '' No memory statistics available - no memories loaded.''"

definition help_response :: string where
  "help_response =
     tools_sign @ '' **Memory Management Commands:**'' @ nl @ nl
     @ ''**View Information:**'' @ nl
     @ bullet @ '' `list memories` - Show active memory stores'' @ nl
     @ bullet @ '' `show statistics` - Display detailed statistics'' @ nl @ nl
     @ ''**Usage:**'' @ nl
     @ bullet @ '' Ask questions to search across all loaded memories'' @ nl
     @ bullet @ '' Add documents with: `ingest '' @ [dquote] @ ''file.pdf'' @ [dquote] @ ''`'' @ nl @ nl
     @ ''**Tips:**'' @ nl
     @ bullet @ '' Memories persist between sessions'' @ nl
     @ bullet @ '' Video files can be copied and shared'' @ nl
     @ bullet @ '' Search works across all loaded memories simultaneously''"

definition manage_response ::
  "env \<Rightarrow> string \<Rightarrow> (string \<times> retriever) list \<Rightarrow> string \<Rightarrow> error + string"
where
  \<comment> \<open>the body of the \<open>try\<close> block, up to the value of \<open>response\<close>\<close>
  "manage_response e q active_memories storage_path =
     (if str_in ''list'' q \<or> str_in ''show'' q then
        (if active_memories \<noteq> []
         then Inr (list_response (memory_info e storage_path active_memories))
         else Inr no_stores_response)
      else if str_in ''stats'' q \<or> str_in ''statistics'' q then
        (if active_memories \<noteq> [] then
           (case storage_sizes e storage_path of
              Inl err \<Rightarrow> Inl err
            | Inr sizes \<Rightarrow>
                Inr (stats_response (length active_memories) (env_fmt_mb e sizes) storage_path))
         else Inr no_stats_response)
      else Inr help_response)"

definition manage_memory_node ::
  "env \<Rightarrow> conversation_state \<Rightarrow> (string \<times> retriever) list \<Rightarrow> string \<Rightarrow> conversation_state"
where
  "manage_memory_node e st active_memories storage_path =
     (case manage_response e (lower (query st)) active_memories storage_path of
        Inr r \<Rightarrow> st\<lparr>response := r, processing_status := ''memory_managed''\<rparr>
      | Inl err \<Rightarrow>
          st\<lparr>response := cross_mark @ '' Error in memory management: '' @ str_error err,
             processing_status := ''management_error'',
             error_message := Some (str_error err)\<rparr>)"

section \<open>tools.py: names, directories and the summary\<close>

definition backslash :: char where
  "backslash = CHR 0x5C"

fun collapse_underscores :: "string \<Rightarrow> string" where
  \<comment> \<open>\<open>re.sub(r'_+', '_', s)\<close>\<close>
  "collapse_underscores [] = []"
| "collapse_underscores [c] = [c]"
| "collapse_underscores (a # b # cs) =
     (if a = CHR ''_'' \<and> b = CHR ''_'' then collapse_underscores (b # cs)
      else a # collapse_underscores (b # cs))"

definition sanitize_memory_name :: "string \<Rightarrow> string" where
  "sanitize_memory_name name =
     (let replaced = map (\<lambda>c. if c \<in> set ''<>:/|?*'' \<or> c = dquote \<or> c = backslash
                                then CHR ''_'' else c) name;
          collapsed = collapse_underscores replaced;
          stripped = rev (dropWhile (\<lambda>c. c = CHR ''_'')
                       (rev (dropWhile (\<lambda>c. c = CHR ''_'') collapsed)));
          sanitized = (if 50 < length stripped then take 50 stripped else stripped)
      in if sanitized = [] then ''memory'' else sanitized)"

definition generate_memory_name :: "string \<Rightarrow> string list \<Rightarrow> string" where
  \<comment> \<open>the first argument is the timestamp\<close>
  "generate_memory_name timestamp documents =
     (case documents of
        [] \<Rightarrow> ''memory_'' @ timestamp
      | [d] \<Rightarrow> sanitize_memory_name (path_stem d @ ''_'' @ timestamp)
      | _ \<Rightarrow> ''documents_'' @ timestamp)"

fun scan_files :: "filesystem \<Rightarrow> string list \<Rightarrow> string list \<Rightarrow> string list" where
  \<comment> \<open>the loop over \<open>dir_path.iterdir()\<close>; what raises ends the scan with the documents
      found so far\<close>
  "scan_files fs [] documents = documents"
| "scan_files fs (file_path # rest) documents =
     (case fs_is_file fs file_path of
        Inl err \<Rightarrow> documents
      | Inr is_file \<Rightarrow>
          (if is_file \<and> lower (path_suffix file_path) \<in> set supported_extensions
           then scan_files fs rest (documents @ [path_str file_path])
           else scan_files fs rest documents))"

definition scan_directory_for_documents :: "filesystem \<Rightarrow> string \<Rightarrow> string list" where
  "scan_directory_for_documents fs directory =
     (case fs_exists fs directory of
        Inl err \<Rightarrow> []
      | Inr present \<Rightarrow>
          (if present then
             (case fs_is_dir fs directory of
                Inl err \<Rightarrow> []
              | Inr is_dir \<Rightarrow>
                  (if is_dir then
                     (case fs_iterdir fs directory of
                        Inl err \<Rightarrow> []
                      | Inr files \<Rightarrow> scan_files fs files [])
                   else []))
           else []))"

definition create_ingestion_summary :: "nat \<Rightarrow> nat \<Rightarrow> nat \<Rightarrow> string \<Rightarrow> string \<Rightarrow> string" where
  \<comment> \<open>the arguments are the entries \<open>processed\<close>, \<open>failed\<close>, \<open>total_chunks\<close> and the
      formatted \<open>video_size_mb\<close> of \<open>stats\<close>, and the name of the memory\<close>
  "create_ingestion_summary processed failed total_chunks video_size memory_name =
     check_mark @ '' Successfully created memory '' @ [squote] @ memory_name @ [squote] @ nl @ nl
     @ chart_sign @ '' **Statistics:**'' @ nl
     @ bullet @ '' Processed files: '' @ str_nat processed @ nl
     @ bullet @ '' Failed files: '' @ str_nat failed @ nl
     @ bullet @ '' Total text chunks: '' @ str_nat total_chunks @ nl
     @ bullet @ '' Video memory size: '' @ video_size @ '' MB'' @ nl @ nl
     @ magnifier @ '' You can now search this memory by asking questions about the content.''"

section \<open>nodes.py: ingestion\<close>

definition os_path_exists :: "filesystem \<Rightarrow> string \<Rightarrow> bool" where
  \<comment> \<open>\<open>os.path.exists\<close>: false where \<open>Path.exists()\<close> is false or raises\<close>
  "os_path_exists fs p = (fs_exists fs p = Inr True)"

definition not_quote :: "char \<Rightarrow> bool" where
  "not_quote c = (c \<noteq> dquote \<and> c \<noteq> squote)"

definition directory_words :: "string list" where
  \<comment> \<open>\<open>(?:documents?|files?|folder)\<close>, in the order in which the alternatives are tried\<close>
  "directory_words = [''documents'', ''document'', ''files'', ''file'', ''folder'']"

definition directory_reference_patterns :: "rx list list" where
  \<comment> \<open>\<open>(["\']?)([^"\']*(?:documents?|files?|folder)[^"\']*)\1\<close>: the first group is a double
      quote, a single quote or empty, in this order of preference, and the back reference
      repeats it; the group that is returned is the second\<close>
  "directory_reference_patterns =
     [[lit dquote, Grp_open, Cls not_quote 0 None, Alt directory_words, Cls not_quote 0 None,
       Grp_close, lit dquote],
      [lit squote, Grp_open, Cls not_quote 0 None, Alt directory_words, Cls not_quote 0 None,
       Grp_close, lit squote],
      [Grp_open, Cls not_quote 0 None, Alt directory_words, Cls not_quote 0 None, Grp_close]]"

definition discover_documents :: "filesystem \<Rightarrow> string \<Rightarrow> string list" where
  \<comment> \<open>the document paths of the request: the paths written in it, or else the documents
      of a directory it refers to\<close>
  "discover_documents fs q =
     (let document_paths = extract_document_paths q in
      if document_paths = [] then
        (case re_search directory_reference_patterns (lower q) of
           None \<Rightarrow> []
         | Some g \<Rightarrow>
             (let potential_dir = strip g in
              if os_path_exists fs potential_dir
              then scan_directory_for_documents fs potential_dir
              else []))
      else document_paths)"

definition no_documents_response :: string where
  "no_documents_response =
     cross_mark @ '' No valid document paths found in your request. '' @ nl @ nl
     @ ''**To ingest documents, try:**'' @ nl
     @ bullet @ '' `Ingest '' @ [dquote] @ ''document.pdf'' @ [dquote] @ '' '' @ [dquote]
       @ ''notes.txt'' @ [dquote] @ ''`'' @ nl
     @ bullet @ '' `Process files in '' @ [dquote] @ ''documents/'' @ [dquote] @ '' folder`'' @ nl
     @ bullet @ '' `Add '' @ [dquote] @ ''research_paper.pdf'' @ [dquote] @ '' to memory`'' @ nl @ nl
     @ ''**Supported formats:** PDF, TXT, EPUB, MD, DOCX''"

definition invalid_documents_response :: "validation_result \<Rightarrow> string" where
  "invalid_documents_response v =
     cross_mark @ '' No valid documents found.'' @ nl @ nl
     @ ''**Invalid paths:**'' @ nl
     @ join nl (map (\<lambda>path. bullet @ '' '' @ path) (invalid v)) @ nl @ nl
     @ ''**Supported formats:** '' @ join '', '' (supported v)"

definition no_content_response :: string where
  "no_content_response =
     cross_mark @ '' No content could be extracted from the provided documents.''"

record ingestion_stats =
  processed :: nat
  failed :: nat

fun process_documents ::
  "env \<Rightarrow> string list \<Rightarrow> string list \<Rightarrow> ingestion_stats \<Rightarrow> string list \<times> ingestion_stats"
where
  \<comment> \<open>the loop over \<open>valid_paths\<close>: the chunks of the encoder and the counts afterwards\<close>
  "process_documents e [] chunks stats = (chunks, stats)"
| "process_documents e (doc_path # rest) chunks stats =
     (let added =
        (if lower (path_suffix doc_path) = ''.pdf'' then env_add_pdf e doc_path chunks
         else if lower (path_suffix doc_path) = ''.epub'' then env_add_epub e doc_path chunks
         else (case fs_read_text (env_fs e) doc_path of
                 Inl err \<Rightarrow> (Some err, chunks)
               | Inr content \<Rightarrow> env_add_text e content (path_name doc_path) chunks))
      in case added of
           (None, chunks') \<Rightarrow>
             process_documents e rest chunks' (stats\<lparr>processed := processed stats + 1\<rparr>)
         | (Some err, chunks') \<Rightarrow>
             process_documents e rest chunks' (stats\<lparr>failed := failed stats + 1\<rparr>))"

definition build_memory ::
  "env \<Rightarrow> string \<Rightarrow> string \<Rightarrow> string list \<Rightarrow> error + memory_descriptor \<times> nat"
where
  \<comment> \<open>the branch \<open>if encoder.chunks\<close> up to the descriptor: the directory is made, the video
      is built and its size is read\<close>
  "build_memory e storage_path memory_name chunks =
     (case env_mkdir e (path_str storage_path) of
        Some err \<Rightarrow> Inl err
      | None \<Rightarrow>
          (let video_path = path_join storage_path (memory_name @ ''.mp4'');
               index_path = path_join storage_path (memory_name @ ''_index.json'')
           in case env_build_video e video_path index_path chunks of
                Some err \<Rightarrow> Inl err
              | None \<Rightarrow>
                  (case fs_size (env_fs e) video_path of
                     Inl err \<Rightarrow> Inl err
                   | Inr bytes \<Rightarrow>
                       Inr (\<lparr>mp_video = video_path, mp_index = index_path,
                             mp_name = memory_name\<rparr>, bytes))))"

definition skipped_files :: "string list \<Rightarrow> string" where
  "skipped_files invalid_paths =
     (if invalid_paths = [] then []
      else nl @ nl @ warning_sign @ '' **Skipped files:**'' @ nl
           @ join nl (map (\<lambda>path. bullet @ '' '' @ path) invalid_paths))"

definition ingest_valid_documents ::
  "env \<Rightarrow> conversation_state \<Rightarrow> string \<Rightarrow> validation_result \<Rightarrow> error + conversation_state"
where
  \<comment> \<open>the \<open>try\<close> block from \<open>generate_memory_name\<close> on, for a non-empty list of valid paths\<close>
  "ingest_valid_documents e st storage_path v =
     (let memory_name = generate_memory_name (env_now e) (valid v) in
      case env_encoder_new e of
        Inl err \<Rightarrow> Inl err
      | Inr chunks0 \<Rightarrow>
          (case process_documents e (valid v) chunks0 \<lparr>processed = 0, failed = 0\<rparr> of
             (chunks, stats) \<Rightarrow>
               (if chunks \<noteq> [] then
                  (case build_memory e storage_path memory_name chunks of
                     Inl err \<Rightarrow> Inl err
                   | Inr (descriptor, bytes) \<Rightarrow>
                       Inr (st\<lparr>memory_paths := Some descriptor,
                               response :=
                                 create_ingestion_summary (processed stats) (failed stats)
                                   (length chunks) (env_fmt_mb e [bytes]) memory_name
                                 @ skipped_files (invalid v),
                               processing_status := ''ingestion_complete''\<rparr>))
                else Inr (st\<lparr>response := no_content_response,
                             processing_status := ''ingestion_complete''\<rparr>))))"

definition ingest_documents_try ::
  "env \<Rightarrow> conversation_state \<Rightarrow> string \<Rightarrow> error + conversation_state"
where
  \<comment> \<open>the \<open>try\<close> block\<close>
  "ingest_documents_try e st storage_path =
     (let document_paths = discover_documents (env_fs e) (query st) in
      if document_paths = [] then
        Inr (st\<lparr>response := no_documents_response, processing_status := ''no_documents''\<rparr>)
      else
        (case validate_file_paths (env_fs e) document_paths of
           Inl err \<Rightarrow> Inl err
         | Inr v \<Rightarrow>
             (if valid v = [] then
                Inr (st\<lparr>response := invalid_documents_response v,
                        processing_status := ''invalid_documents''\<rparr>)
              else ingest_valid_documents e st storage_path v)))"

definition ingest_documents_node ::
  "env \<Rightarrow> conversation_state \<Rightarrow> string \<Rightarrow> conversation_state"
where
  "ingest_documents_node e st storage_path =
     (case ingest_documents_try e st storage_path of
        Inr st' \<Rightarrow> st'
      | Inl err \<Rightarrow>
          st\<lparr>response := cross_mark @ '' Error during document ingestion: '' @ str_error err,
             processing_status := ''ingestion_error'',
             error_message := Some (str_error err)\<rparr>)"

section \<open>agent.py: the agent, the graph and the query\<close>

record session =
  session_messages :: "message list"
  created_at :: string

text \<open>
  The agent: the registered memories (a dict, in insertion order), the sessions and the
  storage path.
\<close>

record agent =
  active_memories :: "(string \<times> retriever) list"
  session_data :: "string \<rightharpoonup> session"
  memory_storage_path :: string

fun dict_set :: "(string \<times> 'a) list \<Rightarrow> string \<Rightarrow> 'a \<Rightarrow> (string \<times> 'a) list" where
  \<comment> \<open>\<open>d[k] = v\<close>: a present key keeps its place\<close>
  "dict_set [] k v = [(k, v)]"
| "dict_set ((k', v') # d) k v = (if k' = k then (k, v) # d else (k', v') # dict_set d k v)"

definition wrap_ingest_documents :: "env \<Rightarrow> agent \<Rightarrow> conversation_state \<Rightarrow> agent \<times> conversation_state" where
  \<comment> \<open>\<open>_wrap_ingest_documents\<close>: the new memory is registered when the node has produced a
      descriptor and the retriever can be loaded\<close>
  "wrap_ingest_documents e ag st =
     (let result = ingest_documents_node e st (memory_storage_path ag) in
      case memory_paths result of
        None \<Rightarrow> (ag, result)
      | Some d \<Rightarrow>
          (case env_load_retriever e (mp_video d) (mp_index d) of
             Inl err \<Rightarrow> (ag, result)
           | Inr retriever \<Rightarrow>
               (ag\<lparr>active_memories := dict_set (active_memories ag) (mp_name d) retriever\<rparr>,
                result)))"

definition run_node :: "env \<Rightarrow> node \<Rightarrow> agent \<times> conversation_state \<Rightarrow> agent \<times> conversation_state" where
  \<comment> \<open>the wrapper that \<open>_build_graph\<close> adds for each node\<close>
  "run_node e n s =
     (case s of (ag, st) \<Rightarrow>
        (case n of
           Query_analyzer \<Rightarrow> (ag, analyze_query_node st)
         | Document_ingestor \<Rightarrow> wrap_ingest_documents e ag st
         | Semantic_retriever \<Rightarrow> (ag, retrieve_context_node st (active_memories ag))
         | Context_assembler \<Rightarrow> (ag, assemble_context_node e st)
         | Response_generator \<Rightarrow> (ag, generate_response_node e st)
         | Memory_manager \<Rightarrow>
             (ag, manage_memory_node e st (active_memories ag) (memory_storage_path ag))
         | Error_handler \<Rightarrow> (ag, handle_errors_node st)))"

definition next_node :: "node \<Rightarrow> conversation_state \<Rightarrow> node option" where
  \<comment> \<open>the edges of \<open>_build_graph\<close>; \<open>None\<close> is \<open>END\<close>\<close>
  "next_node n st =
     (case n of
        Query_analyzer \<Rightarrow> Some (route_query st)
      | Document_ingestor \<Rightarrow> None
      | Semantic_retriever \<Rightarrow> Some Context_assembler
      | Context_assembler \<Rightarrow> Some Response_generator
      | Response_generator \<Rightarrow> None
      | Memory_manager \<Rightarrow> None
      | Error_handler \<Rightarrow> None)"

text \<open>
  The run of the compiled graph from a node. Every step runs one node and follows its edge;
  the first argument is the number of steps that are left, and a run that needs more raises
  (\<open>None\<close>). The result is the list of the nodes that ran, the agent and the final state.
\<close>

fun run_from ::
  "env \<Rightarrow> nat \<Rightarrow> node \<Rightarrow> agent \<times> conversation_state
     \<Rightarrow> (node list \<times> agent \<times> conversation_state) option"
where
  "run_from e 0 n s = None"
| "run_from e (Suc k) n s =
     (let s' = run_node e n s in
      case next_node n (snd s') of
        None \<Rightarrow> Some ([n], s')
      | Some m \<Rightarrow> map_option (\<lambda>(trace, s''). (n # trace, s'')) (run_from e k m s'))"

definition recursion_limit :: nat where
  \<comment> \<open>the default limit of the graph library on the steps of a run\<close>
  "recursion_limit = 25"

definition ainvoke ::
  "env \<Rightarrow> agent \<Rightarrow> conversation_state \<Rightarrow> (node list \<times> agent \<times> conversation_state) option"
where
  \<comment> \<open>\<open>self.app.ainvoke(initial_state)\<close>: the run from the entry point\<close>
  "ainvoke e ag st = run_from e recursion_limit Query_analyzer (ag, st)"

definition history :: "agent \<Rightarrow> string \<Rightarrow> message list" where
  \<comment> \<open>the conversation history of a session; a session that does not exist yet has none\<close>
  "history ag sid = (case session_data ag sid of None \<Rightarrow> [] | Some s \<Rightarrow> session_messages s)"

definition open_session :: "env \<Rightarrow> agent \<Rightarrow> string \<Rightarrow> agent" where
  \<comment> \<open>the first statement of \<open>query\<close>\<close>
  "open_session e ag sid =
     (case session_data ag sid of
        None \<Rightarrow>
          ag\<lparr>session_data :=
               (session_data ag)(sid \<mapsto> \<lparr>session_messages = [], created_at = env_session_time e\<rparr>)\<rparr>
      | Some s \<Rightarrow> ag)"

definition set_session_messages :: "agent \<Rightarrow> string \<Rightarrow> message list \<Rightarrow> agent" where
  \<comment> \<open>\<open>self.session_data[session_id]["messages"] = result["messages"]\<close>\<close>
  "set_session_messages ag sid ms =
     (case session_data ag sid of
        None \<Rightarrow> ag
      | Some s \<Rightarrow> ag\<lparr>session_data := (session_data ag)(sid \<mapsto> s\<lparr>session_messages := ms\<rparr>)\<rparr>)"

text \<open>
  \<open>MemvidRAGAgent.query\<close>: the response and the agent afterwards. The list of the state is the
  list of the session, so what the generator appends to it in place is in the history whether
  the run returns or raises; when the run returns, the history becomes the messages of the
  final state.
\<close>

definition query_agent :: "env \<Rightarrow> agent \<Rightarrow> string \<Rightarrow> string \<Rightarrow> string \<times> agent" where
  "query_agent e ag user_input sid =
     (let ag1 = open_session e ag sid;
          st0 = initial_state (history ag1 sid) user_input sid
      in case ainvoke e ag1 st0 of
           None \<Rightarrow> (cross_mark @ '' Error processing query: Recursion limit reached'', ag1)
         | Some (trace, ag2, result) \<Rightarrow>
             (response result, set_session_messages ag2 sid (messages result)))"

section \<open>Example environments\<close>

definition empty_file :: filesystem where
  \<comment> \<open>the file system \<open>one_file\<close> with nothing written in \<open>a.txt\<close>\<close>
  "empty_file = one_file\<lparr>fs_read_text := (\<lambda>p. if path_str p = ''a.txt'' then Inr [] else Inl (Error ''not found'')),
                        fs_size := (\<lambda>p. if path_str p = ''a.txt'' then Inr 0 else Inl (Error ''not found''))\<rparr>"

definition llm_answers :: "message list \<Rightarrow> error + string" where
  \<comment> \<open>a model that answers\<close>
  "llm_answers ms = Inr ''Machine learning is a field of study.''"

definition llm_raises :: "message list \<Rightarrow> error + string" where
  \<comment> \<open>a model whose call raises\<close>
  "llm_raises ms = Inl (Error ''connection refused'')"

definition example_env :: "filesystem \<Rightarrow> (message list \<Rightarrow> error + string) \<Rightarrow> env" where
  \<comment> \<open>an encoder that makes one chunk of every document that is not empty\<close>
  "example_env fs llm =
     \<lparr>env_fs = fs, env_now = ''20240101_120000'', env_session_time = ''2024-01-01 12:00:00'',
      env_fmt_mb = (\<lambda>sizes. ''0.0''), env_fmt_score = (\<lambda>s. ''0.000''), env_llm = llm,
      env_encoder_new = Inr [],
      env_add_pdf = (\<lambda>p chunks. (None, chunks @ [p])),
      env_add_epub = (\<lambda>p chunks. (None, chunks @ [p])),
      env_add_text = (\<lambda>content source chunks.
                        (None, if content = [] then chunks else chunks @ [content])),
      env_mkdir = (\<lambda>p. None),
      env_build_video = (\<lambda>video index chunks. None),
      env_glob_mp4 = (\<lambda>p. Inr []),
      env_load_retriever = (\<lambda>video index. Inr (fixed_retriever []))\<rparr>"

definition new_agent :: agent where
  \<comment> \<open>an agent without memories and without sessions\<close>
  "new_agent = \<lparr>active_memories = [], session_data = Map.empty, memory_storage_path = ''memories''\<rparr>"

definition agent_in_session :: agent where
  \<comment> \<open>an agent without memories whose session \<open>s\<close> holds one turn\<close>
  "agent_in_session =
     \<lparr>active_memories = [],
      session_data =
        [''s'' \<mapsto> \<lparr>session_messages = [HumanMessage ''hello'', AIMessage ''Hello.''],
                       created_at = ''2024-01-01 11:00:00''\<rparr>],
      memory_storage_path = ''memories''\<rparr>"

definition ingest_a_txt :: string where
  \<comment> \<open>the request \<open>ingest "a.txt"\<close>\<close>
  "ingest_a_txt = ''ingest '' @ [dquote] @ ''a.txt'' @ [dquote]"

(*DEFS-END*)

section \<open>Properties of validate\_file\_paths\<close>

lemma validate_loop_raises:
  "\<not> list_all (exists_answers fs) ps \<Longrightarrow> \<exists>e. validate_loop fs ps v i = Inl e"
  by (induction ps arbitrary: v i) (auto simp: exists_answers_def split: sum.splits)

lemma validate_loop_eq:
  "list_all (exists_answers fs) ps \<Longrightarrow>
   validate_loop fs ps v i =
     Inr (v @ map path_str (filter (path_ok fs) ps),
          i @ map (invalid_entry fs) (filter (\<lambda>p. \<not> path_ok fs p) ps))"
  by (induction ps arbitrary: v i)
     (auto simp: path_ok_def invalid_entry_def exists_answers_def split: sum.splits)

lemma untag_invalid_entry: "untag (invalid_entry fs p) = p"
proof -
  have n: "\<not> suffix '' (file not found)'' (p @ '' (unsupported format)'')"
  proof
    assume "suffix '' (file not found)'' (p @ '' (unsupported format)'')"
    then have "suffix '' (file not found)'' '' (unsupported format)''"
      by (simp add: suffix_append)
    then show False by (simp add: suffix_def)
  qed
  show ?thesis
    using n by (simp add: untag_def invalid_entry_def suffix_def)
qed

lemma untag_invalid_entries: "map untag (map (invalid_entry fs) ps) = ps"
  by (induction ps) (simp_all add: untag_invalid_entry)

text \<open>
  C8 (as amended). When every existence check answers, \<open>validate_file_paths\<close> returns, and it
  emits exactly one output entry for every input, in input order: the normalised path
  \<open>str(Path(p))\<close> in \<open>valid\<close> when the path exists and has a supported extension, otherwise
  the path followed by its reason tag in \<open>invalid\<close>. So the invalid list without its tags is
  the list of the rejected inputs, the lengths of the two lists add up to the length of the
  input, the invalid list is free of duplicates whenever the input is, and the valid list is
  free of duplicates whenever the normalised inputs are. When an existence check raises, the
  call raises and returns no lists.
\<close>

theorem validate_file_paths_partition:
  "(list_all (exists_answers fs) paths \<longrightarrow>
      (\<exists>r. validate_file_paths fs paths = Inr r
         \<and> valid r = map path_str (filter (path_ok fs) paths)
         \<and> invalid r = map (invalid_entry fs) (filter (\<lambda>p. \<not> path_ok fs p) paths)
         \<and> map untag (invalid r) = filter (\<lambda>p. \<not> path_ok fs p) paths
         \<and> length (valid r) + length (invalid r) = length paths
         \<and> (distinct paths \<longrightarrow> distinct (invalid r))
         \<and> (distinct (map path_str paths) \<longrightarrow> distinct (valid r))))
   \<and> (\<not> list_all (exists_answers fs) paths \<longrightarrow> (\<exists>e. validate_file_paths fs paths = Inl e))"
proof (intro conjI impI)
  assume a: "list_all (exists_answers fs) paths"
  let ?r = "\<lparr>valid = map path_str (filter (path_ok fs) paths),
             invalid = map (invalid_entry fs) (filter (\<lambda>p. \<not> path_ok fs p) paths),
             supported = supported_extensions\<rparr>"
  have r: "validate_file_paths fs paths = Inr ?r"
    by (simp add: validate_file_paths_def validate_loop_eq [OF a])
  have l: "length (filter (path_ok fs) paths) + length (filter (\<lambda>p. \<not> path_ok fs p) paths)
        = length paths"
    using sum_length_filter_compl by blast
  have inj: "inj_on (invalid_entry fs) A" for A
    by (rule inj_onI) (metis untag_invalid_entry)
  have d: "distinct paths \<longrightarrow>
      distinct (map (invalid_entry fs) (filter (\<lambda>p. \<not> path_ok fs p) paths))"
    by (simp add: distinct_map inj)
  have dv: "distinct (map path_str paths) \<longrightarrow> distinct (map path_str (filter (path_ok fs) paths))"
    by (simp add: distinct_map_filter)
  show "\<exists>r. validate_file_paths fs paths = Inr r
         \<and> valid r = map path_str (filter (path_ok fs) paths)
         \<and> invalid r = map (invalid_entry fs) (filter (\<lambda>p. \<not> path_ok fs p) paths)
         \<and> map untag (invalid r) = filter (\<lambda>p. \<not> path_ok fs p) paths
         \<and> length (valid r) + length (invalid r) = length paths
         \<and> (distinct paths \<longrightarrow> distinct (invalid r))
         \<and> (distinct (map path_str paths) \<longrightarrow> distinct (valid r))"
    using r l d dv untag_invalid_entries [of fs "filter (\<lambda>p. \<not> path_ok fs p) paths"]
    by (intro exI [of _ ?r]) simp
next
  assume "\<not> list_all (exists_answers fs) paths"
  from validate_loop_raises [OF this, of "[]" "[]"]
  show "\<exists>e. validate_file_paths fs paths = Inl e"
    by (auto simp: validate_file_paths_def)
qed

theorem validate_file_paths_partition_witness:
  "list_all (exists_answers one_file) [''a.txt'', ''b.md'', ''a.exe'']
   \<and> distinct [''a.txt'', ''b.md'', ''a.exe'']
   \<and> distinct (map path_str [''a.txt'', ''b.md'', ''a.exe''])
   \<and> validate_file_paths one_file [''a.txt'', ''b.md'', ''a.exe'']
       = Inr \<lparr>valid = [''a.txt''],
              invalid = [''b.md (file not found)'', ''a.exe (file not found)''],
              supported = supported_extensions\<rparr>
   \<and> \<not> list_all (exists_answers one_file) [long_name]
   \<and> validate_file_paths one_file [long_name] = Inl (Error ''File name too long'')"
proof -
  have a: "list_all (exists_answers one_file) [''a.txt'', ''b.md'', ''a.exe'']" by code_simp
  have b: "distinct (map path_str [''a.txt'', ''b.md'', ''a.exe''])" by code_simp
  have c: "validate_file_paths one_file [''a.txt'', ''b.md'', ''a.exe'']
       = Inr \<lparr>valid = [''a.txt''],
              invalid = [''b.md (file not found)'', ''a.exe (file not found)''],
              supported = supported_extensions\<rparr>"
    by code_simp
  have d: "\<not> list_all (exists_answers one_file) [long_name]" by code_simp
  have e: "validate_file_paths one_file [long_name] = Inl (Error ''File name too long'')"
    by code_simp
  from validate_file_paths_partition [of one_file "[''a.txt'', ''b.md'', ''a.exe'']"]
       validate_file_paths_partition [of one_file "[long_name]"] a b c d e
  show ?thesis by simp
qed

text \<open>
  C8 as stated fails. In a directory whose only file is \<open>a.txt\<close>, the two different inputs
  \<open>a.txt\<close> and \<open>./a.txt\<close> both exist and are both normalised to \<open>a.txt\<close>: the valid list
  holds \<open>a.txt\<close> twice, and the outputs, tags removed, are not the inputs.
\<close>

theorem validate_file_paths_duplicates_counterexample:
  "distinct [''a.txt'', ''./a.txt'']
   \<and> validate_file_paths one_file [''a.txt'', ''./a.txt'']
       = Inr \<lparr>valid = [''a.txt'', ''a.txt''], invalid = [], supported = supported_extensions\<rparr>
   \<and> \<not> (set (valid (projr (validate_file_paths one_file [''a.txt'', ''./a.txt'']))) 
          \<union> set (map untag (invalid (projr (validate_file_paths one_file [''a.txt'', ''./a.txt'']))))
          = set [''a.txt'', ''./a.txt''])
   \<and> \<not> distinct (valid (projr (validate_file_paths one_file [''a.txt'', ''./a.txt''])))"
proof -
  have c: "validate_file_paths one_file [''a.txt'', ''./a.txt'']
       = Inr \<lparr>valid = [''a.txt'', ''a.txt''], invalid = [], supported = supported_extensions\<rparr>"
    by code_simp
  show ?thesis unfolding c by simp
qed

section \<open>Properties of the regular expressions and of the intent\<close>


lemma first_some_single [simp]: "first_some [x] = x"
  by (cases x) simp_all

lemma first_some_Some:
  "first_some (map f ks) = Some r \<Longrightarrow> \<exists>k\<in>set ks. f k = Some r"
proof (induction ks)
  case Nil
  then show ?case by simp
next
  case (Cons k ks)
  then show ?case by (cases "f k") auto
qed

lemma first_some_not_None:
  "k \<in> set ks \<Longrightarrow> f k \<noteq> None \<Longrightarrow> first_some (map f ks) \<noteq> None"
proof (induction ks)
  case Nil
  then show ?case by simp
next
  case (Cons a ks)
  then show ?case by (cases "f a") auto
qed

lemma rx_match_lit:
  "rx_match (lit c # rs) i prev s =
     (case s of [] \<Rightarrow> None
      | d # t \<Rightarrow> if d = c then rx_match rs (Suc i) (Some c) t else None)"
proof (cases s)
  case Nil
  then show ?thesis by (simp add: lit_def run_len_def)
next
  case (Cons d t)
  show ?thesis
  proof (cases "d = c")
    case True
    have "[Suc 0..<Suc (Suc 0)] = [Suc 0]" by (simp add: upt_rec)
    with True Cons show ?thesis
      by (simp add: lit_def run_len_def prev_after_def min_def)
  next
    case False
    with Cons show ?thesis by (simp add: lit_def run_len_def)
  qed
qed

lemma set_rev_upt_Suc: "set (rev [lo ..< Suc n]) = {k. lo \<le> k \<and> k \<le> n}"
  by auto

lemma rx_match_cls_Some:
  assumes "rx_match (Cls P lo hi # rs) i prev s = Some r"
  shows "\<exists>k. lo \<le> k \<and> k \<le> run_len P hi s
             \<and> rx_match rs (i + k) (prev_after prev s k) (drop k s) = Some r"
proof -
  from assms have "first_some (map (\<lambda>k. rx_match rs (i + k) (prev_after prev s k) (drop k s))
                     (rev [lo ..< Suc (run_len P hi s)])) = Some r"
    by (simp only: rx_match.simps)
  from first_some_Some [OF this] obtain k where "k \<in> set (rev [lo ..< Suc (run_len P hi s)])"
    and "rx_match rs (i + k) (prev_after prev s k) (drop k s) = Some r"
    by blast
  then show ?thesis unfolding set_rev_upt_Suc by blast
qed

lemma rx_match_cls_not_None:
  assumes "lo \<le> k" and "k \<le> run_len P hi s"
    and "rx_match rs (i + k) (prev_after prev s k) (drop k s) \<noteq> None"
  shows "rx_match (Cls P lo hi # rs) i prev s \<noteq> None"
proof -
  have "k \<in> set (rev [lo ..< Suc (run_len P hi s)])"
    unfolding set_rev_upt_Suc using assms by simp
  from first_some_not_None [OF this, of "\<lambda>k. rx_match rs (i + k) (prev_after prev s k) (drop k s)"]
    assms(3)
  show ?thesis by (simp only: rx_match.simps) simp
qed

lemma take_le_takeWhile:
  "k \<le> length (takeWhile P s) \<Longrightarrow> \<forall>c\<in>set (take k s). P c"
proof -
  assume k: "k \<le> length (takeWhile P s)"
  then have "take k s = take k (takeWhile P s)"
    by (induction s arbitrary: k) (auto simp: take_Cons split: nat.splits if_splits)
  then have "set (take k s) \<subseteq> set (takeWhile P s)" by (metis set_take_subset)
  then show ?thesis by (auto dest: set_takeWhileD)
qed

lemma takeWhile_append_stop:
  "\<forall>c\<in>set g. P c \<Longrightarrow> \<not> P d \<Longrightarrow> takeWhile P (g @ d # rest) = g"
  by (induction g) auto

lemma quoted_match_sound:
  assumes m: "rx_match (quoted_file_pattern q) 0 prev s = Some (e, gs, ge)"
    and q: "\<not> is_ascii_letter q" "q \<noteq> CHR ''.''"
  shows "\<exists>g rest. s = q # g @ q # rest \<and> file_token q g \<and> q \<notin> set g
                  \<and> e = length g + 2 \<and> gs = 1 \<and> ge = length g + 1"
proof -
  let ?p2 = "[lit CHR ''.'', Cls is_ascii_letter 2 (Some 4), Grp_close, lit q]"
  from m obtain s1 where s: "s = q # s1"
    and m1: "rx_match (Grp_open # Cls (\<lambda>c. c \<noteq> q) 1 None # ?p2) 1 (Some q) s1 = Some (e, gs, ge)"
    by (auto simp: quoted_file_pattern_def rx_match_lit split: list.splits if_splits)
  from m1 obtain gs' where gs: "gs = 1"
    and m2: "rx_match (Cls (\<lambda>c. c \<noteq> q) 1 None # ?p2) 1 (Some q) s1 = Some (e, gs', ge)"
    by auto
  from rx_match_cls_Some [OF m2] obtain k1 where k1: "1 \<le> k1" "k1 \<le> length (takeWhile (\<lambda>c. c \<noteq> q) s1)"
    and m3: "rx_match ?p2 (1 + k1) (prev_after (Some q) s1 k1) (drop k1 s1) = Some (e, gs', ge)"
    by (auto simp: run_len_def)
  from m3 obtain s2 where s2: "drop k1 s1 = CHR ''.'' # s2"
    and m4: "rx_match [Cls is_ascii_letter 2 (Some 4), Grp_close, lit q] (Suc (1 + k1)) (Some CHR ''.'') s2
               = Some (e, gs', ge)"
    by (auto simp: rx_match_lit split: list.splits if_splits)
  from rx_match_cls_Some [OF m4] obtain k2 where k2: "2 \<le> k2" "k2 \<le> 4"
      "k2 \<le> length (takeWhile is_ascii_letter s2)"
    and m5: "rx_match [Grp_close, lit q] (Suc (1 + k1) + k2) (prev_after (Some CHR ''.'') s2 k2) (drop k2 s2)
               = Some (e, gs', ge)"
    by (auto simp: run_len_def)
  from m5 obtain ge' where ge: "ge = Suc (1 + k1) + k2"
    and m6: "rx_match [lit q] (Suc (1 + k1) + k2) (prev_after (Some CHR ''.'') s2 k2) (drop k2 s2)
               = Some (e, gs', ge')"
    by auto
  from m6 obtain s3 where s3: "drop k2 s2 = q # s3" and e: "e = Suc (Suc (1 + k1) + k2)"
    by (auto simp: rx_match_lit split: list.splits if_splits)
  let ?x = "take k1 s1" and ?ext = "take k2 s2"
  let ?g = "?x @ ''.'' @ ?ext"
  have l1: "k1 \<le> length s1" using k1(2) length_takeWhile_le [of "\<lambda>c. c \<noteq> q" s1] by linarith
  have l2: "k2 \<le> length s2" using k2(3) length_takeWhile_le [of is_ascii_letter s2] by linarith
  have "s1 = ?x @ drop k1 s1" by simp
  also have "drop k1 s1 = CHR ''.'' # ?ext @ drop k2 s2" using s2 by simp
  finally have s1: "s1 = ?g @ q # s3" using s3 by simp
  have xq: "\<forall>c\<in>set ?x. c \<noteq> q" using take_le_takeWhile [OF k1(2)] .
  have el: "\<forall>c\<in>set ?ext. is_ascii_letter c" using take_le_takeWhile [OF k2(3)] .
  have eq: "\<forall>c\<in>set ?ext. c \<noteq> q" using el q(1) by auto
  have len: "length ?g = k1 + 1 + k2" using l1 l2 by simp
  have ft: "file_token q ?g"
    unfolding file_token_def
    apply (rule exI [of _ ?x], rule exI [of _ ?ext])
    using k1 k2 l1 l2 xq el by auto
  have nq: "q \<notin> set ?g" using xq eq q(2) by auto
  show ?thesis
    apply (rule exI [of _ ?g], rule exI [of _ s3])
    using s s1 ft nq len e gs ge by simp
qed

lemma quoted_match_complete:
  assumes ft: "file_token q g" and nq: "q \<notin> set g" and qletter: "\<not> is_ascii_letter q"
  shows "rx_match (quoted_file_pattern q) 0 prev (q # g @ q # rest) \<noteq> None"
proof -
  from ft obtain x ext where g: "g = x @ ''.'' @ ext" and x: "x \<noteq> []"
    and ext: "2 \<le> length ext" "length ext \<le> 4" "\<forall>c\<in>set ext. is_ascii_letter c"
    unfolding file_token_def by blast
  let ?s1 = "g @ q # rest"
  let ?s2 = "ext @ q # rest"
  have tw1: "takeWhile (\<lambda>c. c \<noteq> q) ?s1 = g"
    using nq by (intro takeWhile_append_stop) auto
  have tw2: "takeWhile is_ascii_letter ?s2 = ext"
    using ext(3) qletter by (intro takeWhile_append_stop) auto
  have d1: "drop (length x) ?s1 = CHR ''.'' # ?s2" using g by simp
  have a: "rx_match [Grp_close, lit q] (Suc (1 + length x) + length ext)
             (prev_after (Some CHR ''.'') ?s2 (length ext)) (drop (length ext) ?s2) \<noteq> None"
    by (simp add: rx_match_lit)
  have b: "rx_match [Cls is_ascii_letter 2 (Some 4), Grp_close, lit q] (Suc (1 + length x))
             (Some CHR ''.'') ?s2 \<noteq> None"
    using ext(1,2) tw2 a by (intro rx_match_cls_not_None [of _ "length ext"]) (simp_all add: run_len_def)
  have c: "rx_match [lit CHR ''.'', Cls is_ascii_letter 2 (Some 4), Grp_close, lit q] (1 + length x)
             (prev_after (Some q) ?s1 (length x)) (drop (length x) ?s1) \<noteq> None"
    unfolding d1 using b by (simp add: rx_match_lit del: rx_match.simps(6))
  have d: "rx_match (Cls (\<lambda>c. c \<noteq> q) 1 None
             # [lit CHR ''.'', Cls is_ascii_letter 2 (Some 4), Grp_close, lit q]) 1 (Some q) ?s1 \<noteq> None"
    using x g tw1 c
    by (intro rx_match_cls_not_None [of _ "length x"]) (simp_all add: run_len_def Suc_le_eq)
  then show ?thesis
    by (simp add: quoted_file_pattern_def rx_match_lit del: rx_match.simps(6))
qed


lemma findall_quoted_elems:
  assumes q: "\<not> is_ascii_letter q" "q \<noteq> CHR ''.''"
  shows "m \<in> set (re_findall_from (quoted_file_pattern q) prev s) \<Longrightarrow> file_token q m \<and> q \<notin> set m"
proof (induction "quoted_file_pattern q" prev s rule: re_findall_from.induct)
  case (1 prev)
  have "rx_match (quoted_file_pattern q) 0 prev [] = None"
    by (simp add: quoted_file_pattern_def rx_match_lit)
  with 1 show ?case by simp
next
  case (2 prev c cs)
  show ?case
  proof (cases "rx_match (quoted_file_pattern q) 0 prev (c # cs)")
    case None
    with 2 show ?thesis by simp
  next
    case (Some r)
    obtain e gs ge where r: "r = (e, gs, ge)" by (cases r)
    from quoted_match_sound [OF Some [unfolded r] q] obtain g rest where
      s: "c # cs = q # g @ q # rest" and ft: "file_token q g" and nq: "q \<notin> set g"
      and e: "e = length g + 2" and gs: "gs = 1" and ge: "ge = length g + 1"
      by blast
    have grp: "take (ge - gs) (drop gs (c # cs)) = g" unfolding s gs ge by simp
    from 2(4) Some r e have
      "m = take (ge - gs) (drop gs (c # cs))
       \<or> m \<in> set (re_findall_from (quoted_file_pattern q) (prev_after prev (c # cs) e) (drop e (c # cs)))"
      by simp
    then show ?thesis
    proof
      assume "m = take (ge - gs) (drop gs (c # cs))"
      with grp ft nq show ?thesis by simp
    next
      assume "m \<in> set (re_findall_from (quoted_file_pattern q) (prev_after prev (c # cs) e) (drop e (c # cs)))"
      with 2(3) [OF Some, of e "(gs, ge)" gs ge] r e show ?thesis by simp
    qed
  qed
qed

lemma findall_nonempty:
  assumes "\<And>pv. rx_match p 0 pv t \<noteq> None"
  shows "re_findall_from p prev (pre @ t) \<noteq> []"
proof (induction pre arbitrary: prev)
  case Nil
  show ?case
  proof (cases t)
    case Nil
    with assms [of prev] show ?thesis by (auto split: option.splits)
  next
    case (Cons c cs)
    with assms [of prev] show ?thesis by (auto split: option.splits)
  qed
next
  case (Cons c pre)
  show ?case
  proof (cases "rx_match p 0 prev (c # pre @ t)")
    case None
    with Cons show ?thesis by simp
  next
    case (Some r)
    then show ?thesis by (auto split: prod.splits)
  qed
qed

lemma strip_file_token:
  assumes "file_token q m"
  shows "1 < length (strip m)"
proof -
  from assms obtain x ext where m: "m = x @ ''.'' @ ext" and ext: "2 \<le> length ext"
    "\<forall>c\<in>set ext. is_ascii_letter c"
    unfolding file_token_def by blast
  have ns: "\<And>c. is_ascii_letter c \<Longrightarrow> \<not> is_space c"
    by (auto simp: is_ascii_letter_def is_space_def)
  have dot: "\<not> is_space CHR ''.''" by (simp add: is_space_def code_def)
  obtain x' where d: "dropWhile is_space m = x' @ ''.'' @ ext"
    unfolding m using dot by (cases "\<forall>c\<in>set x. is_space c") (auto simp: dropWhile_append)
  have ne: "ext \<noteq> []" using ext(1) by auto
  then have r: "rev ext = last ext # rev (butlast ext)"
    by (metis append_butlast_last_id rev.simps(2) rev_append rev_rev_ident append_Cons append_Nil rev_singleton_conv)
  have nl: "\<not> is_space (last ext)" using ext(2) ns ne by simp
  have "rev (dropWhile is_space m) = last ext # (rev (butlast ext) @ ''.'' @ rev x')"
    unfolding d using r by simp
  then have "dropWhile is_space (rev (dropWhile is_space m)) = rev (dropWhile is_space m)"
    using nl by simp
  then have "strip m = x' @ ''.'' @ ext" unfolding strip_def d by simp
  then have "length (strip m) = length x' + 1 + length ext" by simp
  then show ?thesis using ext(1) by linarith
qed

lemma quote_not_letter:
  "\<not> is_ascii_letter dquote" "dquote \<noteq> CHR ''.''" "\<not> is_ascii_letter squote" "squote \<noteq> CHR ''.''"
  by (simp_all add: is_ascii_letter_def dquote_def squote_def code_def)

lemma extract_quoted_nonempty:
  assumes qc: "qc = dquote \<or> qc = squote"
    and ft: "file_token qc g" and nq: "qc \<notin> set g"
  shows "extract_document_paths (pre @ qc # g @ qc # post) \<noteq> []"
proof -
  let ?s = "pre @ qc # g @ qc # post"
  let ?quoted = "re_findall (quoted_file_pattern dquote) ?s @ re_findall (quoted_file_pattern squote) ?s"
  have ql: "\<not> is_ascii_letter qc" using qc quote_not_letter by auto
  have "re_findall (quoted_file_pattern qc) ?s \<noteq> []"
    unfolding re_findall_def
    by (rule findall_nonempty) (rule quoted_match_complete [OF ft nq ql])
  then have ne: "?quoted \<noteq> []" using qc by auto
  then obtain m where m: "m \<in> set ?quoted" by (cases ?quoted) auto
  then have "file_token dquote m \<or> file_token squote m"
    using findall_quoted_elems [OF quote_not_letter(1,2)] findall_quoted_elems [OF quote_not_letter(3,4)]
    unfolding re_findall_def by auto
  then have "1 < length (strip m)" using strip_file_token by blast
  then have "strip m \<in> set (filter (\<lambda>p. p \<noteq> [] \<and> 1 < length p) (map strip ?quoted))"
    using m by auto
  then have f: "filter (\<lambda>p. p \<noteq> [] \<and> 1 < length p) (map strip ?quoted) \<noteq> []"
    by (metis empty_iff empty_set)
  have "extract_document_paths ?s
          = remdups (filter (\<lambda>p. p \<noteq> [] \<and> 1 < length p) (map strip ?quoted))"
    unfolding extract_document_paths_def Let_def using ne by (simp only: if_False)
  then show ?thesis using f by simp
qed

text \<open>
  C7. An utterance that contains a quoted token (either quote style, no quote of that style
  inside) ending in a dot and two to four ASCII letters is classified as \<open>ingest\<close>, whatever
  else it contains.
\<close>

theorem quoted_file_token_is_ingest:
  assumes "q = pre @ [qc] @ x @ ''.'' @ ext @ [qc] @ post"
    and "qc = dquote \<or> qc = squote"
    and "x \<noteq> []" and "qc \<notin> set x"
    and "2 \<le> length ext" and "length ext \<le> 4" and "\<forall>c\<in>set ext. is_ascii_letter c"
  shows "ii_intent (parse_query_intent q) = ''ingest''"
proof -
  let ?g = "x @ ''.'' @ ext"
  have ft: "file_token qc ?g" unfolding file_token_def using assms(3-7) by blast
  have "qc \<noteq> CHR ''.''" "\<not> is_ascii_letter qc" using assms(2) quote_not_letter by auto
  then have nq: "qc \<notin> set ?g" using assms(4,7) by auto
  have "q = pre @ qc # ?g @ qc # post" using assms(1) by simp
  then have "extract_document_paths q \<noteq> []"
    using extract_quoted_nonempty [OF assms(2) ft nq] by simp
  then show ?thesis by (simp add: parse_query_intent_def Let_def)
qed

theorem quoted_file_token_is_ingest_witness:
  "ii_intent (parse_query_intent (''list '' @ [dquote] @ ''a'' @ ''.'' @ ''pdf'' @ [dquote] @ '' stats'')) = ''ingest''"
  by (rule quoted_file_token_is_ingest [where pre = "''list ''" and qc = dquote and x = "''a''"
        and ext = "''pdf''" and post = "'' stats''"])
     (simp_all add: dquote_def is_ascii_letter_def code_def)

section \<open>Extracting again from quoted paths\<close>

lemma quoted_match_wrong_start:
  "c \<noteq> q \<Longrightarrow> rx_match (quoted_file_pattern q) 0 prev (c # cs) = None"
  by (simp add: quoted_file_pattern_def rx_match_lit)

lemma quoted_match_empty: "rx_match (quoted_file_pattern q) 0 prev [] = None"
  by (simp add: quoted_file_pattern_def rx_match_lit)

lemma findall_without_quote:
  "q \<notin> set s \<Longrightarrow> re_findall_from (quoted_file_pattern q) prev s = []"
proof (induction s arbitrary: prev)
  case Nil
  show ?case by (simp add: quoted_match_empty)
next
  case (Cons c cs)
  then have "c \<noteq> q" and "q \<notin> set cs" by auto
  then show ?case using Cons.IH by (simp add: quoted_match_wrong_start)
qed

lemma split_at_quote:
  assumes "g @ q # r = g' @ q # r'" and "q \<notin> set g" and "q \<notin> set g'"
  shows "g = g'"
proof -
  have "takeWhile (\<lambda>c. c \<noteq> q) (g @ q # r) = g" using assms(2) by (intro takeWhile_append_stop) auto
  moreover have "takeWhile (\<lambda>c. c \<noteq> q) (g' @ q # r') = g'"
    using assms(3) by (intro takeWhile_append_stop) auto
  ultimately show ?thesis using assms(1) by simp
qed

lemma findall_quoted_token:
  assumes ft: "file_token q p" and nq: "q \<notin> set p"
    and q: "\<not> is_ascii_letter q" "q \<noteq> CHR ''.''"
  shows "re_findall_from (quoted_file_pattern q) prev (q # p @ q # rst)
           = p # re_findall_from (quoted_file_pattern q) (Some q) rst"
proof -
  from quoted_match_complete [OF ft nq q(1), of prev rst] obtain e gs ge
    where m: "rx_match (quoted_file_pattern q) 0 prev (q # p @ q # rst) = Some (e, gs, ge)"
    by auto
  from quoted_match_sound [OF m q] obtain g rest where
    s: "q # p @ q # rst = q # g @ q # rest" and ng: "q \<notin> set g"
    and e: "e = length g + 2" and gs: "gs = 1" and ge: "ge = length g + 1"
    by blast
  have g: "g = p" using split_at_quote [of p q rst g rest] s nq ng by simp
  have pa: "prev_after prev (q # p @ q # rst) (Suc (Suc (length p))) = Some q"
    by (simp add: prev_after_def)
  show ?thesis using m e gs ge g pa by simp
qed

lemma findall_quote_paths:
  assumes q: "\<not> is_ascii_letter q" "q \<noteq> CHR ''.''" "q \<noteq> CHR '',''" "q \<noteq> CHR '' ''"
  shows "\<forall>p\<in>set ps. file_token q p \<and> q \<notin> set p \<Longrightarrow>
         re_findall_from (quoted_file_pattern q) prev (join '', '' (map (\<lambda>p. [q] @ p @ [q]) ps)) = ps"
proof (induction ps arbitrary: prev)
  case Nil
  then show ?case by (simp add: quoted_match_empty)
next
  case (Cons p ps)
  then have ft: "file_token q p" and nq: "q \<notin> set p" by auto
  show ?case
  proof (cases ps)
    case Nil
    have "re_findall_from (quoted_file_pattern q) prev (q # p @ q # []) = [p]"
      using findall_quoted_token [OF ft nq q(1,2), of prev "[]"] by (simp add: quoted_match_empty)
    with Nil show ?thesis by simp
  next
    case (Cons p' ps')
    let ?rest = "join '', '' (map (\<lambda>p. [q] @ p @ [q]) ps)"
    have j: "join '', '' (map (\<lambda>p. [q] @ p @ [q]) (p # ps)) = q # p @ q # ('', '' @ ?rest)"
      using Cons by simp
    have "re_findall_from (quoted_file_pattern q) (Some q) ('', '' @ ?rest)
            = re_findall_from (quoted_file_pattern q) (Some CHR '' '') ?rest"
      using q(3,4) by (simp add: quoted_match_wrong_start)
    also have "\<dots> = ps" using Cons.IH Cons.prems by simp
    finally show ?thesis
      unfolding j using findall_quoted_token [OF ft nq q(1,2), of prev "'', '' @ ?rest"] by simp
  qed
qed

lemma set_join_subset:
  "set (join sep xs) \<subseteq> set sep \<union> \<Union> (set ` set xs)"
  by (induction sep xs rule: join.induct) auto

lemma strip_idem: "strip (strip s) = strip s"
proof -
  let ?a = "dropWhile is_space s"
  let ?b = "dropWhile is_space (rev ?a)"
  have b: "dropWhile is_space ?b = ?b" by (simp add: dropWhile_idem)
  have "dropWhile is_space (rev ?b) = rev ?b"
  proof (cases "?b = []")
    case True
    show ?thesis by (simp only: True rev.simps dropWhile.simps)
  next
    case False
    then have "rev ?a \<noteq> []" by (metis dropWhile.simps(1))
    then have ane: "?a \<noteq> []" by simp
    then have ha: "\<not> is_space (hd ?a)" by (rule hd_dropWhile)
    have "rev ?a = takeWhile is_space (rev ?a) @ ?b" by simp
    then have "?a = rev ?b @ rev (takeWhile is_space (rev ?a))"
      by (metis rev_append rev_rev_ident)
    then have "hd ?a = hd (rev ?b)" using False by (metis hd_append2 rev_is_Nil_conv)
    with ha have "\<not> is_space (hd (rev ?b))" by simp
    then show ?thesis using False by (cases "rev ?b") auto
  qed
  then show ?thesis unfolding strip_def using b by simp
qed

lemma extract_stripped: "p \<in> set (extract_document_paths q) \<Longrightarrow> strip p = p"
  by (auto simp: extract_document_paths_def Let_def strip_idem)

lemma extract_empty: "extract_document_paths [] = []"
  by code_simp

lemma extract_quote_paths:
  assumes "\<forall>p\<in>set ps. file_token dquote p \<and> dquote \<notin> set p \<and> squote \<notin> set p \<and> strip p = p"
  shows "extract_document_paths (quote_paths ps) = remdups ps"
proof (cases ps)
  case Nil
  then show ?thesis by (simp add: quote_paths_def extract_empty)
next
  case (Cons a as)
  let ?s = "quote_paths ps"
  have c: "dquote \<noteq> CHR '',''" "dquote \<noteq> CHR '' ''" "squote \<noteq> CHR '',''" "squote \<noteq> CHR '' ''"
    "squote \<noteq> dquote"
    by (simp_all add: dquote_def squote_def)
  have d: "re_findall (quoted_file_pattern dquote) ?s = ps"
    unfolding re_findall_def quote_paths_def
    using findall_quote_paths [OF quote_not_letter(1,2) c(1,2), of ps None] assms by simp
  have "set ?s \<subseteq> set '', '' \<union> \<Union> (set ` set (map (\<lambda>path. [dquote] @ path @ [dquote]) ps))"
    unfolding quote_paths_def by (rule set_join_subset)
  then have "squote \<notin> set ?s" using assms c by (auto split: if_splits)
  then have s: "re_findall (quoted_file_pattern squote) ?s = []"
    unfolding re_findall_def by (rule findall_without_quote)
  have ne: "re_findall (quoted_file_pattern dquote) ?s @ re_findall (quoted_file_pattern squote) ?s \<noteq> []"
    using d s Cons by simp
  have e: "extract_document_paths ?s
          = remdups (filter (\<lambda>p. p \<noteq> [] \<and> 1 < length p)
              (map strip (re_findall (quoted_file_pattern dquote) ?s
                          @ re_findall (quoted_file_pattern squote) ?s)))"
    unfolding extract_document_paths_def Let_def using ne by (simp only: if_False)
  have m: "map strip ps = ps" using assms by (simp add: map_idI)
  have "\<forall>p\<in>set ps. 1 < length p" using assms strip_file_token by metis
  then have f: "filter (\<lambda>p. p \<noteq> [] \<and> 1 < length p) ps = ps" by (auto simp: filter_id_conv)
  show ?thesis unfolding e d s using m f by simp
qed

text \<open>
  C9 (as amended). When every path extracted from a query consists of a non-empty part, a dot
  and two to four ASCII letters, and contains neither quote character, quoting the extracted
  paths the way \<open>ingest_documents\<close> does and extracting again returns the same set of paths.
\<close>

theorem extract_requoted_same:
  assumes "\<forall>p\<in>set (extract_document_paths q).
             file_token dquote p \<and> dquote \<notin> set p \<and> squote \<notin> set p"
  shows "set (extract_document_paths (quote_paths (extract_document_paths q)))
           = set (extract_document_paths q)"
proof -
  have "\<forall>p\<in>set (extract_document_paths q).
          file_token dquote p \<and> dquote \<notin> set p \<and> squote \<notin> set p \<and> strip p = p"
    using assms extract_stripped by blast
  from extract_quote_paths [OF this] show ?thesis by simp
qed


theorem extract_requoted_same_witness:
  "set (extract_document_paths (quote_paths (extract_document_paths
          (''Ingest '' @ [dquote] @ ''a.pdf'' @ [dquote] @ '' and '' @ [squote] @ ''b.txt'' @ [squote]))))
     = {''a.pdf'', ''b.txt''}"
proof -
  let ?q = "''Ingest '' @ [dquote] @ ''a.pdf'' @ [dquote] @ '' and '' @ [squote] @ ''b.txt'' @ [squote]"
  have e: "extract_document_paths ?q = [''a.pdf'', ''b.txt'']"
    by code_simp
  have a: "file_token dquote ''a.pdf''"
    unfolding file_token_def
    by (rule exI [of _ "''a''"], rule exI [of _ "''pdf''"])
       (simp add: dquote_def is_ascii_letter_def code_def)
  have b: "file_token dquote ''b.txt''"
    unfolding file_token_def
    by (rule exI [of _ "''b''"], rule exI [of _ "''txt''"])
       (simp add: dquote_def is_ascii_letter_def code_def)
  have "\<forall>p\<in>set (extract_document_paths ?q).
          file_token dquote p \<and> dquote \<notin> set p \<and> squote \<notin> set p"
    unfolding e using a b by (simp add: dquote_def squote_def)
  from extract_requoted_same [OF this] show ?thesis unfolding e by simp
qed

text \<open>
  C9 as stated fails: the query \<open>" .ab"\<close> (a quoted token with a leading blank) yields the
  path \<open>.ab\<close>, because the match is stripped; quoted again, \<open>".ab"\<close> has nothing before the
  dot, no pattern matches, and the second extraction is empty.
\<close>

theorem extract_requoted_counterexample:
  "set (extract_document_paths (quote_paths (extract_document_paths ([dquote] @ '' .ab'' @ [dquote]))))
     \<noteq> set (extract_document_paths ([dquote] @ '' .ab'' @ [dquote]))"
proof -
  have a: "extract_document_paths ([dquote] @ '' .ab'' @ [dquote]) = [''.ab'']"
    by code_simp
  have b: "extract_document_paths (quote_paths [''.ab'']) = []"
    by code_simp
  show ?thesis unfolding a b by simp
qed

section \<open>Properties of the sort\<close>

lemma float_lt_irrefl [simp]: "\<not> float_lt a a"
  by (cases a) auto

lemma float_lt_trans: "float_lt a b \<Longrightarrow> float_lt b c \<Longrightarrow> float_lt a c"
  by (cases a; cases b; cases c) auto

lemma float_lt_asym: "float_lt a b \<Longrightarrow> \<not> float_lt b a"
  by (cases a; cases b) auto

lemma float_lt_not_nan: "float_lt a b \<Longrightarrow> a \<noteq> Nan \<and> b \<noteq> Nan"
  by (cases a; cases b) auto

lemma float_lt_le: "float_lt a b \<Longrightarrow> float_le a b"
  by (cases a; cases b) (auto simp: float_le_def)

lemma float_le_trans: "float_le a b \<Longrightarrow> float_le b c \<Longrightarrow> float_le a c"
  by (cases a; cases b; cases c) (auto simp: float_le_def)

lemma float_lt_le_trans: "float_lt a b \<Longrightarrow> float_le b c \<Longrightarrow> float_lt a c"
  by (cases a; cases b; cases c) (auto simp: float_le_def)

lemma float_le_lt_trans: "float_le a b \<Longrightarrow> float_lt b c \<Longrightarrow> float_lt a c"
  by (cases a; cases b; cases c) (auto simp: float_le_def)

lemma float_not_lt: "a \<noteq> Nan \<Longrightarrow> b \<noteq> Nan \<Longrightarrow> \<not> float_lt a b \<Longrightarrow> float_le b a"
  by (simp add: float_le_def)


lemma bisect_bounds: "l \<le> r \<Longrightarrow> l \<le> bisect pivot xs l r \<and> bisect pivot xs l r \<le> r"
proof (induction pivot xs l r rule: bisect.induct)
  case (1 pivot xs l r)
  show ?case
  proof (cases "l < r")
    case False
    then show ?thesis using 1(3) by (subst bisect.simps, subst bisect.simps) simp
  next
    case True
    let ?p = "l + (r - l) div 2"
    have p: "l \<le> ?p" "?p < r" using True by auto
    show ?thesis
    proof (cases "float_lt (chunk_score pivot) (chunk_score (xs ! ?p))")
      case lt: True
      have "l \<le> bisect pivot xs l ?p \<and> bisect pivot xs l ?p \<le> ?p"
        using 1(1) [OF True refl lt] p by simp
      then show ?thesis using True lt p by (subst bisect.simps, subst bisect.simps) (simp add: Let_def)
    next
      case nlt: False
      have "?p + 1 \<le> bisect pivot xs (?p + 1) r \<and> bisect pivot xs (?p + 1) r \<le> r"
        using 1(2) [OF True refl nlt] p by simp
      then show ?thesis using True nlt p by (subst bisect.simps, subst bisect.simps) (simp add: Let_def)
    qed
  qed
qed

lemma bisect_place:
  assumes "sorted_wrt asc xs" and "l \<le> r" and "r \<le> length xs"
    and "\<forall>i<l. \<not> float_lt (chunk_score pivot) (chunk_score (xs ! i))"
    and "\<forall>i. r \<le> i \<and> i < length xs \<longrightarrow> float_lt (chunk_score pivot) (chunk_score (xs ! i))"
  shows "(\<forall>i < bisect pivot xs l r. \<not> float_lt (chunk_score pivot) (chunk_score (xs ! i)))
       \<and> (\<forall>i. bisect pivot xs l r \<le> i \<and> i < length xs
              \<longrightarrow> float_lt (chunk_score pivot) (chunk_score (xs ! i)))"
  using assms
proof (induction pivot xs l r rule: bisect.induct)
  case (1 pivot xs l r)
  show ?case
  proof (cases "l < r")
    case False
    then have e: "bisect pivot xs l r = l" by (subst bisect.simps) simp
    have "l = r" using False 1(4) by simp
    then show ?thesis using 1(6,7) unfolding e by simp
  next
    case True
    let ?p = "l + (r - l) div 2"
    have p: "l \<le> ?p" "?p < r" "?p < length xs" using True 1(5) by auto
    show ?thesis
    proof (cases "float_lt (chunk_score pivot) (chunk_score (xs ! ?p))")
      case lt: True
      have e: "bisect pivot xs l r = bisect pivot xs l ?p"
        using True lt by (subst bisect.simps) (simp add: Let_def)
      have hi: "\<forall>i. ?p \<le> i \<and> i < length xs
                  \<longrightarrow> float_lt (chunk_score pivot) (chunk_score (xs ! i))"
      proof (intro allI impI)
        fix i assume i: "?p \<le> i \<and> i < length xs"
        show "float_lt (chunk_score pivot) (chunk_score (xs ! i))"
        proof (cases "i = ?p")
          case True
          then show ?thesis using lt by simp
        next
          case False
          then have "?p < i" using i by simp
          then have "asc (xs ! ?p) (xs ! i)"
            using sorted_wrt_nth_less [OF 1(3), of ?p i] i by simp
          then show ?thesis using lt float_lt_le_trans by blast
        qed
      qed
      show ?thesis
        unfolding e
        using 1(1) [OF True refl lt 1(3) p(1) _ 1(6) hi] p(3) by simp
    next
      case nlt: False
      have e: "bisect pivot xs l r = bisect pivot xs (?p + 1) r"
        using True nlt by (subst bisect.simps) (simp add: Let_def)
      have lo: "\<forall>i < ?p + 1. \<not> float_lt (chunk_score pivot) (chunk_score (xs ! i))"
      proof (intro allI impI)
        fix i assume i: "i < ?p + 1"
        show "\<not> float_lt (chunk_score pivot) (chunk_score (xs ! i))"
        proof (cases "i = ?p")
          case True
          then show ?thesis using nlt by simp
        next
          case False
          then have "i < ?p" using i by simp
          then have "asc (xs ! i) (xs ! ?p)"
            using sorted_wrt_nth_less [OF 1(3), of i ?p] p(3) by simp
          then show ?thesis using nlt float_lt_le_trans by blast
        qed
      qed
      show ?thesis
        unfolding e
        using 1(2) [OF True refl nlt 1(3) _ 1(5) lo 1(7)] p(2) by simp
    qed
  qed
qed

lemma mset_binary_insert: "mset (binary_insert x ys) = add_mset x (mset ys)"
proof -
  let ?l = "bisect x ys 0 (length ys)"
  have "mset (take ?l ys) + mset (drop ?l ys) = mset ys"
    by (metis append_take_drop_id mset_append)
  then show ?thesis by (simp add: binary_insert_def Let_def)
qed

lemma binary_insert_sorted:
  assumes s: "sorted_wrt asc ys" and nx: "chunk_score x \<noteq> Nan" and ny: "no_nan ys"
  shows "sorted_wrt asc (binary_insert x ys)"
    and "filter (\<lambda>c. chunk_score c = v) (binary_insert x ys)
           = filter (\<lambda>c. chunk_score c = v) ys @ (if chunk_score x = v then [x] else [])"
proof -
  let ?l = "bisect x ys 0 (length ys)"
  have b: "?l \<le> length ys" using bisect_bounds [of 0 "length ys" x ys] by simp
  have pl: "(\<forall>i < ?l. \<not> float_lt (chunk_score x) (chunk_score (ys ! i)))
       \<and> (\<forall>i. ?l \<le> i \<and> i < length ys \<longrightarrow> float_lt (chunk_score x) (chunk_score (ys ! i)))"
    by (rule bisect_place [OF s]) auto
  have nn: "\<forall>c\<in>set ys. chunk_score c \<noteq> Nan" using ny by (simp add: no_nan_def list_all_iff)
  have lo: "\<forall>y\<in>set (take ?l ys). asc y x"
  proof
    fix y assume "y \<in> set (take ?l ys)"
    then obtain i where i: "i < ?l" "y = ys ! i"
      using b by (metis in_set_conv_nth length_take min.absorb2 nth_take)
    have "y \<in> set ys" using i b by simp
    then show "asc y x" using i pl nn nx by (simp add: float_le_def)
  qed
  have hi: "\<forall>y\<in>set (drop ?l ys). float_lt (chunk_score x) (chunk_score y)"
  proof
    fix y assume "y \<in> set (drop ?l ys)"
    then obtain j where j: "j < length ys - ?l" "y = drop ?l ys ! j"
      by (metis in_set_conv_nth length_drop)
    then have "y = ys ! (?l + j)" using b by simp
    then show "float_lt (chunk_score x) (chunk_score y)" using pl j by simp
  qed
  have st: "sorted_wrt asc (take ?l ys)" "sorted_wrt asc (drop ?l ys)"
    using s by (metis append_take_drop_id sorted_wrt_append)+
  have cross: "\<forall>a\<in>set (take ?l ys). \<forall>c\<in>set (drop ?l ys). asc a c"
    using s by (metis append_take_drop_id sorted_wrt_append)
  show "sorted_wrt asc (binary_insert x ys)"
    using st cross lo hi float_lt_le
    by (auto simp: binary_insert_def Let_def sorted_wrt_append)
  have f0: "chunk_score x = v \<Longrightarrow> filter (\<lambda>c. chunk_score c = v) (drop ?l ys) = []"
    using hi by (auto simp: filter_empty_conv)
  have f1: "filter (\<lambda>c. chunk_score c = v) ys
     = filter (\<lambda>c. chunk_score c = v) (take ?l ys) @ filter (\<lambda>c. chunk_score c = v) (drop ?l ys)"
    by (metis append_take_drop_id filter_append)
  show "filter (\<lambda>c. chunk_score c = v) (binary_insert x ys)
           = filter (\<lambda>c. chunk_score c = v) ys @ (if chunk_score x = v then [x] else [])"
    using f0 f1 by (simp add: binary_insert_def Let_def)
qed

lemma no_nan_binary_insert:
  "no_nan (binary_insert x ys) = (chunk_score x \<noteq> Nan \<and> no_nan ys)"
proof -
  have "set (binary_insert x ys) = insert x (set ys)"
    by (metis mset_binary_insert set_mset_add_mset_insert set_mset_mset)
  then show ?thesis by (auto simp: no_nan_def list_all_iff)
qed

lemma mset_binarysort: "mset (binarysort ys rest) = mset ys + mset rest"
  by (induction rest arbitrary: ys) (simp_all add: mset_binary_insert)

lemma binarysort_sorted:
  "sorted_wrt asc ys \<Longrightarrow> no_nan ys \<Longrightarrow> no_nan rest \<Longrightarrow>
   sorted_wrt asc (binarysort ys rest)
   \<and> filter (\<lambda>c. chunk_score c = v) (binarysort ys rest)
       = filter (\<lambda>c. chunk_score c = v) ys @ filter (\<lambda>c. chunk_score c = v) rest"
proof (induction rest arbitrary: ys)
  case Nil
  then show ?case by simp
next
  case (Cons x rest)
  have nx: "chunk_score x \<noteq> Nan" and nr: "no_nan rest" using Cons(4) by (simp_all add: no_nan_def)
  note bi = binary_insert_sorted [OF Cons(2) nx Cons(3)]
  have "no_nan (binary_insert x ys)" using nx Cons(3) by (simp add: no_nan_binary_insert)
  from Cons(1) [OF bi(1) this nr] show ?case by (simp add: bi(2))
qed

lemma asc_run:
  "no_nan (prev # xs) \<Longrightarrow> sorted_wrt asc (prev # take (count_asc prev xs) xs)"
proof (induction xs arbitrary: prev)
  case Nil
  then show ?case by simp
next
  case (Cons x xs)
  have n: "chunk_score prev \<noteq> Nan" "chunk_score x \<noteq> Nan" "no_nan (x # xs)"
    using Cons(2) by (simp_all add: no_nan_def)
  show ?case
  proof (cases "float_lt (chunk_score x) (chunk_score prev)")
    case True
    then show ?thesis by simp
  next
    case False
    have px: "asc prev x" using False n by (simp add: float_le_def)
    have ih: "sorted_wrt asc (x # take (count_asc x xs) xs)" using Cons(1) [OF n(3)] .
    then have "\<forall>y\<in>set (take (count_asc x xs) xs). asc x y" by simp
    then have "\<forall>y\<in>set (take (count_asc x xs) xs). asc prev y"
      using px float_le_trans by blast
    then show ?thesis using False px ih by simp
  qed
qed

lemma desc_run:
  "sorted_wrt (\<lambda>a b. float_lt (chunk_score b) (chunk_score a))
     (prev # take (count_desc prev xs) xs)"
proof (induction xs arbitrary: prev)
  case Nil
  then show ?case by simp
next
  case (Cons x xs)
  show ?case
  proof (cases "float_lt (chunk_score x) (chunk_score prev)")
    case False
    then show ?thesis by simp
  next
    case True
    have ih: "sorted_wrt (\<lambda>a b. float_lt (chunk_score b) (chunk_score a))
                (x # take (count_desc x xs) xs)"
      using Cons .
    then have "\<forall>y\<in>set (take (count_desc x xs) xs). float_lt (chunk_score y) (chunk_score x)"
      by simp
    then have "\<forall>y\<in>set (take (count_desc x xs) xs). float_lt (chunk_score y) (chunk_score prev)"
      using True float_lt_trans by blast
    then show ?thesis using True ih by simp
  qed
qed

lemma filter_rev_desc:
  "sorted_wrt (\<lambda>a b. float_lt (chunk_score b) (chunk_score a)) run \<Longrightarrow>
   filter (\<lambda>c. chunk_score c = v) (rev run) = filter (\<lambda>c. chunk_score c = v) run"
proof (induction run)
  case Nil
  then show ?case by simp
next
  case (Cons x run)
  have ih: "filter (\<lambda>c. chunk_score c = v) (rev run) = filter (\<lambda>c. chunk_score c = v) run"
    using Cons by simp
  show ?case
  proof (cases "chunk_score x = v")
    case False
    then show ?thesis using ih by simp
  next
    case True
    have "\<forall>y\<in>set run. float_lt (chunk_score y) (chunk_score x)" using Cons(2) by simp
    then have "\<forall>y\<in>set run. chunk_score y \<noteq> v" using True float_lt_irrefl by metis
    then have "filter (\<lambda>c. chunk_score c = v) run = []" by (simp add: filter_empty_conv)
    then show ?thesis using ih True by simp
  qed
qed

lemma sorted_rev_desc:
  "sorted_wrt (\<lambda>a b. float_lt (chunk_score b) (chunk_score a)) run \<Longrightarrow> sorted_wrt asc (rev run)"
proof -
  assume "sorted_wrt (\<lambda>a b. float_lt (chunk_score b) (chunk_score a)) run"
  then have "sorted_wrt (\<lambda>a b. float_lt (chunk_score a) (chunk_score b)) (rev run)"
    by (simp add: sorted_wrt_rev)
  then show ?thesis
    by (rule sorted_wrt_mono_rel [rotated]) (simp add: float_lt_le)
qed

lemma count_run_Cons:
  "count_run (x # xs) =
     (if xs \<noteq> [] \<and> float_lt (chunk_score (hd xs)) (chunk_score x)
      then (Suc (count_desc x xs), True) else (Suc (count_asc x xs), False))"
  by (cases xs) simp_all

lemma no_nan_append: "no_nan (xs @ ys) = (no_nan xs \<and> no_nan ys)"
  by (simp add: no_nan_def)

lemma no_nan_rev: "no_nan (rev xs) = no_nan xs"
  by (simp add: no_nan_def list_all_iff)

lemma no_nan_take_drop: "no_nan xs \<Longrightarrow> no_nan (take n xs) \<and> no_nan (drop n xs)"
  by (metis append_take_drop_id no_nan_append)

lemma mset_listsort: "mset (listsort xs) = mset xs"
proof -
  obtain n d where c: "count_run xs = (n, d)" by (cases "count_run xs")
  have "mset (take n xs) + mset (drop n xs) = mset xs"
    by (metis append_take_drop_id mset_append)
  then show ?thesis by (simp add: listsort_def c mset_binarysort)
qed

lemma listsort_sorted:
  assumes nn: "no_nan xs"
  shows "sorted_wrt asc (listsort xs)
       \<and> filter (\<lambda>c. chunk_score c = v) (listsort xs) = filter (\<lambda>c. chunk_score c = v) xs"
proof (cases xs)
  case Nil
  then show ?thesis by (simp add: listsort_def)
next
  case (Cons x ys)
  have f: "filter (\<lambda>c. chunk_score c = v) (take k xs) @ filter (\<lambda>c. chunk_score c = v) (drop k xs)
        = filter (\<lambda>c. chunk_score c = v) xs" for k
    by (metis append_take_drop_id filter_append)
  show ?thesis
  proof (cases "ys \<noteq> [] \<and> float_lt (chunk_score (hd ys)) (chunk_score x)")
    case True
    let ?n = "Suc (count_desc x ys)"
    have c: "count_run xs = (?n, True)" using True Cons by (simp add: count_run_Cons)
    have run: "sorted_wrt (\<lambda>a b. float_lt (chunk_score b) (chunk_score a)) (take ?n xs)"
      using desc_run [of x ys] Cons by simp
    have nt: "no_nan (rev (take ?n xs))" "no_nan (drop ?n xs)"
      using no_nan_take_drop [OF nn, of ?n] by (simp_all add: no_nan_rev)
    have l: "listsort xs = binarysort (rev (take ?n xs)) (drop ?n xs)"
      by (simp add: listsort_def c)
    show ?thesis
      unfolding l
      using binarysort_sorted [OF sorted_rev_desc [OF run] nt, of v] filter_rev_desc [OF run, of v]
            f [of ?n]
      by simp
  next
    case False
    let ?n = "Suc (count_asc x ys)"
    have c: "count_run xs = (?n, False)" using False Cons by (simp add: count_run_Cons)
    have run: "sorted_wrt asc (take ?n xs)"
      using asc_run [of x ys] nn Cons by simp
    have nt: "no_nan (take ?n xs)" "no_nan (drop ?n xs)"
      using no_nan_take_drop [OF nn, of ?n] by simp_all
    have l: "listsort xs = binarysort (take ?n xs) (drop ?n xs)"
      by (simp add: listsort_def c)
    show ?thesis
      unfolding l
      using binarysort_sorted [OF run nt, of v] f [of ?n]
      by simp
  qed
qed

lemma mset_sort_desc: "mset (sort_desc xs) = mset xs"
  by (simp add: sort_desc_def mset_listsort)

lemma sorted_sort_desc:
  "no_nan xs \<Longrightarrow>
   sorted_wrt (\<lambda>a b. float_le (chunk_score b) (chunk_score a)) (sort_desc xs)"
  using listsort_sorted [of "rev xs"] by (simp add: sort_desc_def sorted_wrt_rev no_nan_rev)

lemma stable_sort_desc:
  "no_nan xs \<Longrightarrow>
   filter (\<lambda>c. chunk_score c = v) (sort_desc xs) = filter (\<lambda>c. chunk_score c = v) xs"
proof -
  assume "no_nan xs"
  then have "filter (\<lambda>c. chunk_score c = v) (listsort (rev xs))
              = filter (\<lambda>c. chunk_score c = v) (rev xs)"
    using listsort_sorted [of "rev xs" v] by (simp add: no_nan_rev)
  then have "rev (filter (\<lambda>c. chunk_score c = v) (listsort (rev xs)))
              = rev (filter (\<lambda>c. chunk_score c = v) (rev xs))" by simp
  then show ?thesis by (simp add: sort_desc_def rev_filter)
qed

lemma sort_desc_Nil: "sort_desc [] = []"
  by (simp add: sort_desc_def listsort_def)

lemmas sort_eval = sort_desc_def listsort_def binary_insert_def bisect.simps Let_def

section \<open>Properties of retrieval\<close>

lemma search_all_eq: "search_all q ms acc = acc @ concat (map (found q) ms)"
  by (induction q ms acc rule: search_all.induct) (auto simp: found_def split: sum.splits)

lemma tag_results_nth:
  "i < length results \<Longrightarrow>
   tag_results n results ! i
     = \<lparr>chunk_text = fst (results ! i), chunk_score = snd (results ! i), source_memory = n,
        chunk_rank = i + 1\<rparr>"
  by (simp add: tag_results_def nth_enumerate_eq split: prod.splits)

lemma length_tag_results: "length (tag_results n results) = length results"
  by (simp add: tag_results_def)

text \<open>
  C5 (as amended). Whatever the registered memories answer, the retrieved chunks are the first
  ten of the merged list after the sort, and the context holds the texts of at most the first
  five; the sort permutes the merged list; every chunk carries the name of its memory and its
  rank in that memory's results, counted from one. When no score of the merged list is NaN,
  the sorted list descends by score and keeps the chunks of equal score in the order of the
  merged list (memory after memory, each in the order of its results).
\<close>

theorem retrieval_merge_sorted:
  "retrieved_chunks (retrieve_context_node st ms)
     = take 10 (sort_desc (search_all (query st) ms []))
   \<and> contexts (retrieve_context_node st ms)
       = map chunk_text (take 5 (sort_desc (search_all (query st) ms [])))
   \<and> search_all (query st) ms [] = concat (map (found (query st)) ms)
   \<and> mset (sort_desc (search_all (query st) ms [])) = mset (search_all (query st) ms [])
   \<and> (\<forall>n results. \<forall>i < length results.
         tag_results n results ! i
           = \<lparr>chunk_text = fst (results ! i), chunk_score = snd (results ! i),
              source_memory = n, chunk_rank = i + 1\<rparr>)
   \<and> length (retrieved_chunks (retrieve_context_node st ms)) \<le> 10
   \<and> length (contexts (retrieve_context_node st ms)) \<le> 5
   \<and> (no_nan (search_all (query st) ms []) \<longrightarrow>
         sorted_wrt (\<lambda>a b. float_le (chunk_score b) (chunk_score a))
           (sort_desc (search_all (query st) ms []))
         \<and> (\<forall>s. filter (\<lambda>c. chunk_score c = s) (sort_desc (search_all (query st) ms []))
                 = filter (\<lambda>c. chunk_score c = s) (search_all (query st) ms [])))"
proof -
  have e: "ms = [] \<Longrightarrow> sort_desc (search_all (query st) ms []) = []"
    by (simp add: sort_desc_Nil)
  have a: "retrieved_chunks (retrieve_context_node st ms)
     = take 10 (sort_desc (search_all (query st) ms []))"
    using e by (simp add: retrieve_context_node_def Let_def)
  have b: "contexts (retrieve_context_node st ms)
       = map chunk_text (take 5 (sort_desc (search_all (query st) ms [])))"
    using e by (simp add: retrieve_context_node_def Let_def)
  have c: "search_all (query st) ms [] = concat (map (found (query st)) ms)"
    by (simp add: search_all_eq)
  have l1: "length (retrieved_chunks (retrieve_context_node st ms)) \<le> 10" unfolding a by simp
  have l2: "length (contexts (retrieve_context_node st ms)) \<le> 5" unfolding b by simp
  show ?thesis
    using a b c sorted_sort_desc mset_sort_desc stable_sort_desc tag_results_nth l1 l2
    by blast
qed

theorem retrieval_merge_sorted_witness:
  "(1::nat) < length [(''x'', Finite 0.5), (''y'', Finite 0.9)]
   \<and> tag_results ''a'' [(''x'', Finite 0.5), (''y'', Finite 0.9)] ! 1
       = \<lparr>chunk_text = ''y'', chunk_score = Finite 0.9, source_memory = ''a'', chunk_rank = 2\<rparr>
   \<and> no_nan (search_all (query (initial_state [] ''q'' ''s''))
        [(''a'', fixed_retriever [(''x'', Finite 0.5), (''y'', Finite 0.9)]),
         (''b'', fixed_retriever [(''z'', Finite 0.9)])] [])
   \<and> sorted_wrt (\<lambda>a b. float_le (chunk_score b) (chunk_score a))
        (sort_desc (search_all (query (initial_state [] ''q'' ''s''))
           [(''a'', fixed_retriever [(''x'', Finite 0.5), (''y'', Finite 0.9)]),
            (''b'', fixed_retriever [(''z'', Finite 0.9)])] []))
   \<and> retrieved_chunks (retrieve_context_node (initial_state [] ''q'' ''s'')
        [(''a'', fixed_retriever [(''x'', Finite 0.5), (''y'', Finite 0.9)]),
         (''b'', fixed_retriever [(''z'', Finite 0.9)])])
       = [\<lparr>chunk_text = ''y'', chunk_score = Finite 0.9, source_memory = ''a'', chunk_rank = 2\<rparr>,
          \<lparr>chunk_text = ''z'', chunk_score = Finite 0.9, source_memory = ''b'', chunk_rank = 1\<rparr>,
          \<lparr>chunk_text = ''x'', chunk_score = Finite 0.5, source_memory = ''a'', chunk_rank = 1\<rparr>]"
proof -
  let ?st = "initial_state [] ''q'' ''s''"
  let ?ms = "[(''a'', fixed_retriever [(''x'', Finite 0.5), (''y'', Finite 0.9)]),
              (''b'', fixed_retriever [(''z'', Finite 0.9)])]"
  have s: "search_all (query ?st) ?ms []
     = [\<lparr>chunk_text = ''x'', chunk_score = Finite 0.5, source_memory = ''a'', chunk_rank = 1\<rparr>,
        \<lparr>chunk_text = ''y'', chunk_score = Finite 0.9, source_memory = ''a'', chunk_rank = 2\<rparr>,
        \<lparr>chunk_text = ''z'', chunk_score = Finite 0.9, source_memory = ''b'', chunk_rank = 1\<rparr>]"
    by (simp add: fixed_retriever_def tag_results_def enumerate_eq_zip)
  have l: "(1::nat) < length [(''x'', Finite 0.5), (''y'', Finite 0.9)]" by simp
  have n: "no_nan (search_all (query ?st) ?ms [])" unfolding s by (simp add: no_nan_def)
  have d: "sort_desc (search_all (query ?st) ?ms [])
     = [\<lparr>chunk_text = ''y'', chunk_score = Finite 0.9, source_memory = ''a'', chunk_rank = 2\<rparr>,
        \<lparr>chunk_text = ''z'', chunk_score = Finite 0.9, source_memory = ''b'', chunk_rank = 1\<rparr>,
        \<lparr>chunk_text = ''x'', chunk_score = Finite 0.5, source_memory = ''a'', chunk_rank = 1\<rparr>]"
    unfolding s by (simp add: sort_eval)
  from retrieval_merge_sorted [of ?st ?ms] l n show ?thesis
    unfolding d by simp
qed

text \<open>
  C5 as stated fails for a score that is NaN. One memory answers with the scores 0.1, NaN,
  0.9 and 0.5: every comparison with NaN is false, the sort finds the reversed list to be one
  run and leaves the merged list as it is. The chunk of score 0.1 stays before the chunk of
  score 0.9.
\<close>

theorem retrieval_nan_counterexample:
  "retrieved_chunks (retrieve_context_node (initial_state [] ''q'' ''s'')
        [(''a'', fixed_retriever
                  [(''w'', Finite 0.1), (''x'', Nan), (''y'', Finite 0.9), (''z'', Finite 0.5)])])
     = [\<lparr>chunk_text = ''w'', chunk_score = Finite 0.1, source_memory = ''a'', chunk_rank = 1\<rparr>,
        \<lparr>chunk_text = ''x'', chunk_score = Nan, source_memory = ''a'', chunk_rank = 2\<rparr>,
        \<lparr>chunk_text = ''y'', chunk_score = Finite 0.9, source_memory = ''a'', chunk_rank = 3\<rparr>,
        \<lparr>chunk_text = ''z'', chunk_score = Finite 0.5, source_memory = ''a'', chunk_rank = 4\<rparr>]
   \<and> float_lt
        (chunk_score (retrieved_chunks (retrieve_context_node (initial_state [] ''q'' ''s'')
           [(''a'', fixed_retriever
                     [(''w'', Finite 0.1), (''x'', Nan), (''y'', Finite 0.9), (''z'', Finite 0.5)])])
           ! 0))
        (chunk_score (retrieved_chunks (retrieve_context_node (initial_state [] ''q'' ''s'')
           [(''a'', fixed_retriever
                     [(''w'', Finite 0.1), (''x'', Nan), (''y'', Finite 0.9), (''z'', Finite 0.5)])])
           ! 2))"
proof -
  let ?st = "initial_state [] ''q'' ''s''"
  let ?ms = "[(''a'', fixed_retriever
                 [(''w'', Finite 0.1), (''x'', Nan), (''y'', Finite 0.9), (''z'', Finite 0.5)])]"
  have s: "search_all (query ?st) ?ms []
     = [\<lparr>chunk_text = ''w'', chunk_score = Finite 0.1, source_memory = ''a'', chunk_rank = 1\<rparr>,
        \<lparr>chunk_text = ''x'', chunk_score = Nan, source_memory = ''a'', chunk_rank = 2\<rparr>,
        \<lparr>chunk_text = ''y'', chunk_score = Finite 0.9, source_memory = ''a'', chunk_rank = 3\<rparr>,
        \<lparr>chunk_text = ''z'', chunk_score = Finite 0.5, source_memory = ''a'', chunk_rank = 4\<rparr>]"
    by (simp add: fixed_retriever_def tag_results_def enumerate_eq_zip)
  have v: "retrieved_chunks (retrieve_context_node ?st ?ms)
     = [\<lparr>chunk_text = ''w'', chunk_score = Finite 0.1, source_memory = ''a'', chunk_rank = 1\<rparr>,
        \<lparr>chunk_text = ''x'', chunk_score = Nan, source_memory = ''a'', chunk_rank = 2\<rparr>,
        \<lparr>chunk_text = ''y'', chunk_score = Finite 0.9, source_memory = ''a'', chunk_rank = 3\<rparr>,
        \<lparr>chunk_text = ''z'', chunk_score = Finite 0.5, source_memory = ''a'', chunk_rank = 4\<rparr>]"
    unfolding retrieve_context_node_def Let_def s by (simp add: sort_eval)
  show ?thesis unfolding v by simp
qed





end
